theory Spec2Isabelle
  imports Main
begin

section \<open>Values, text and errors\<close>

text \<open>
  The query builder of \<^verbatim>\<open>src/index.ts\<close> is embedded function by function.
  JavaScript values that the compiler only stores (the \<^verbatim>\<open>value?: any\<close> of a
  \<^verbatim>\<open>WhereNode\<close>) are a datatype; the compiler looks at a value only to iterate
  over it when the operator is \<^verbatim>\<open>IN\<close>. Reading a property that is absent yields
  \<^verbatim>\<open>undefined\<close>, so \<open>VUndefined\<close> is also the value of a node built without one.
  A number among the values is an integer; such a number is stored as a parameter and
  never printed.
\<close>

datatype JSValue =
    VUndefined
  | VNull
  | VBool bool
  | VNum int
  | VStr string
  | VArr "JSValue list"

text \<open>
  Exceptions are values. \<open>Error msg\<close> is \<^verbatim>\<open>throw new Error(msg)\<close>; \<open>TypeError\<close> is what
  the runtime raises when \<^verbatim>\<open>.map\<close> is called on a value that is not an array.
\<close>

datatype js_error = Error string | TypeError

text \<open>\<^verbatim>\<open>Array.prototype.join\<close> on an array of strings.\<close>

fun join_str :: "string \<Rightarrow> string list \<Rightarrow> string" where
  "join_str sep [] = []"
| "join_str sep [x] = x"
| "join_str sep (x # y # ys) = x @ sep @ join_str sep (y # ys)"

text \<open>Decimal rendering of the placeholder counter inside a template literal.\<close>

definition digit_char :: "nat \<Rightarrow> char" where
  "digit_char d = ''0123456789'' ! d"

function show_nat :: "nat \<Rightarrow> string" where
  "show_nat n = (if n < 10 then [digit_char n] else show_nat (n div 10) @ [digit_char (n mod 10)])"
  by pat_completeness auto
termination
  by (relation "measure id") auto

declare show_nat.simps [simp del]

text \<open>
  A number that the compiler only prints (\<^verbatim>\<open>limit\<close>, \<^verbatim>\<open>offset\<close>) is given by the text a
  template literal prints for it: \<^verbatim>\<open>10\<close>, \<^verbatim>\<open>-3\<close>, \<^verbatim>\<open>2.5\<close>, \<^verbatim>\<open>1e+21\<close>, \<^verbatim>\<open>NaN\<close>.
\<close>

datatype JSNumber = Num (printed: string)

text \<open>A template literal renders an absent string property as \<^verbatim>\<open>undefined\<close>.\<close>

definition str_or_undefined :: "string option \<Rightarrow> string" where
  "str_or_undefined s = (case s of None \<Rightarrow> ''undefined'' | Some t \<Rightarrow> t)"

section \<open>Query AST\<close>

datatype Operator =
    OpEq | OpNe | OpGt | OpLt | OpGe | OpLe | OpLike | OpIn | OpIsNull | OpIsNotNull

fun op_text :: "Operator \<Rightarrow> string" where
  "op_text OpEq = ''=''"
| "op_text OpNe = ''!=''"
| "op_text OpGt = ''>''"
| "op_text OpLt = ''<''"
| "op_text OpGe = ''>=''"
| "op_text OpLe = ''<=''"
| "op_text OpLike = ''LIKE''"
| "op_text OpIn = ''IN''"
| "op_text OpIsNull = ''IS NULL''"
| "op_text OpIsNotNull = ''IS NOT NULL''"

definition op_or_undefined :: "Operator option \<Rightarrow> string" where
  "op_or_undefined p = (case p of None \<Rightarrow> ''undefined'' | Some q \<Rightarrow> op_text q)"

datatype NodeType = Condition | AND | OR | NOT

text \<open>
  \<^verbatim>\<open>interface WhereNode { type; field?; op?; value?; children? }\<close>: every property but
  the tag is optional.
\<close>

datatype WhereNode =
  WhereNode (ntype: NodeType) (field: "string option") (op: "Operator option")
            (val: JSValue) (children: "WhereNode list option")

section \<open>Condition builders\<close>

definition cond :: "Operator \<Rightarrow> string \<Rightarrow> JSValue \<Rightarrow> WhereNode" where
  "cond p f v = WhereNode Condition (Some f) (Some p) v None"

definition eq :: "string \<Rightarrow> JSValue \<Rightarrow> WhereNode" where "eq f v = cond OpEq f v"
definition ne :: "string \<Rightarrow> JSValue \<Rightarrow> WhereNode" where "ne f v = cond OpNe f v"
definition gt :: "string \<Rightarrow> JSValue \<Rightarrow> WhereNode" where "gt f v = cond OpGt f v"
definition lt :: "string \<Rightarrow> JSValue \<Rightarrow> WhereNode" where "lt f v = cond OpLt f v"
definition gte :: "string \<Rightarrow> JSValue \<Rightarrow> WhereNode" where "gte f v = cond OpGe f v"
definition lte :: "string \<Rightarrow> JSValue \<Rightarrow> WhereNode" where "lte f v = cond OpLe f v"
definition like :: "string \<Rightarrow> string \<Rightarrow> WhereNode" where "like f p = cond OpLike f (VStr p)"
definition in_cond :: "string \<Rightarrow> JSValue list \<Rightarrow> WhereNode" where "in_cond f vs = cond OpIn f (VArr vs)"
definition isNull :: "string \<Rightarrow> WhereNode" where "isNull f = cond OpIsNull f VUndefined"
definition isNotNull :: "string \<Rightarrow> WhereNode" where "isNotNull f = cond OpIsNotNull f VUndefined"

definition and_cond :: "WhereNode list \<Rightarrow> WhereNode" where
  "and_cond conditions = WhereNode AND None None VUndefined (Some conditions)"

definition or_cond :: "WhereNode list \<Rightarrow> WhereNode" where
  "or_cond conditions = WhereNode OR None None VUndefined (Some conditions)"

definition not_cond :: "WhereNode \<Rightarrow> WhereNode" where
  "not_cond condition = WhereNode NOT None None VUndefined (Some [condition])"

section \<open>SQL compiler: predicates\<close>

text \<open>The two private fields of \<^verbatim>\<open>SQLCompiler\<close>.\<close>

record cstate =
  params :: "JSValue list"
  paramIndex :: nat

text \<open>
  The callback of the \<^verbatim>\<open>IN\<close> branch, mapped over the value array: push the element,
  return the next placeholder.
\<close>

fun inPlaceholders :: "JSValue list \<Rightarrow> cstate \<Rightarrow> string list \<times> cstate" where
  "inPlaceholders [] st = ([], st)"
| "inPlaceholders (v # vs) st =
     (let st1 = st\<lparr>params := params st @ [v]\<rparr>;
          p = CHR ''$'' # show_nat (paramIndex st1);
          st2 = st1\<lparr>paramIndex := paramIndex st1 + 1\<rparr>;
          (ps, st3) = inPlaceholders vs st2
      in (p # ps, st3))"

text \<open>
  \<open>compileWhereNode\<close> with the loop \<^verbatim>\<open>children.map(c => this.compileWhereNode(c))\<close> as
  \<open>mapWhereNodes\<close>. The \<^verbatim>\<open>default\<close> branch of the switch has no counterpart: the tag has
  four values. \<^verbatim>\<open>node.children?.map(...)\<close> is \<^verbatim>\<open>undefined\<close> when there are no children,
  which the template literal prints.
\<close>

fun compileWhereNode :: "WhereNode \<Rightarrow> cstate \<Rightarrow> js_error + (string \<times> cstate)"
  and mapWhereNodes :: "WhereNode list \<Rightarrow> cstate \<Rightarrow> js_error + (string list \<times> cstate)" where
  "compileWhereNode (WhereNode Condition f p v ch) st =
     (if p = Some OpIsNull \<or> p = Some OpIsNotNull then
        Inr (str_or_undefined f @ '' '' @ op_or_undefined p, st)
      else if p = Some OpIn then
        (case v of
           VArr vs \<Rightarrow>
             (let (ps, st') = inPlaceholders vs st
              in Inr (str_or_undefined f @ '' IN ('' @ join_str '', '' ps @ '')'', st'))
         | _ \<Rightarrow> Inl TypeError)
      else
        (let st1 = st\<lparr>params := params st @ [v]\<rparr>
         in Inr (str_or_undefined f @ '' '' @ op_or_undefined p @ '' $'' @ show_nat (paramIndex st1),
                 st1\<lparr>paramIndex := paramIndex st1 + 1\<rparr>)))"
| "compileWhereNode (WhereNode AND f p v ch) st =
     (case ch of
        None \<Rightarrow> Inr (''(undefined)'', st)
      | Some cs \<Rightarrow>
          (case mapWhereNodes cs st of
             Inl e \<Rightarrow> Inl e
           | Inr (ts, st') \<Rightarrow> Inr (''('' @ join_str '' AND '' ts @ '')'', st')))"
| "compileWhereNode (WhereNode OR f p v ch) st =
     (case ch of
        None \<Rightarrow> Inr (''(undefined)'', st)
      | Some cs \<Rightarrow>
          (case mapWhereNodes cs st of
             Inl e \<Rightarrow> Inl e
           | Inr (ts, st') \<Rightarrow> Inr (''('' @ join_str '' OR '' ts @ '')'', st')))"
| "compileWhereNode (WhereNode NOT f p v ch) st =
     (case ch of
        None \<Rightarrow> Inr (''NOT (undefined)'', st)
      | Some cs \<Rightarrow>
          (case mapWhereNodes cs st of
             Inl e \<Rightarrow> Inl e
           | Inr (ts, st') \<Rightarrow> Inr (''NOT ('' @ join_str '' '' ts @ '')'', st')))"
| "mapWhereNodes [] st = Inr ([], st)"
| "mapWhereNodes (c # cs) st =
     (case compileWhereNode c st of
        Inl e \<Rightarrow> Inl e
      | Inr (t, st1) \<Rightarrow>
          (case mapWhereNodes cs st1 of
             Inl e \<Rightarrow> Inl e
           | Inr (ts, st2) \<Rightarrow> Inr (t # ts, st2)))"

definition compileWhereNodes :: "WhereNode list \<Rightarrow> cstate \<Rightarrow> js_error + (string \<times> cstate)" where
  "compileWhereNodes nodes st =
     (if length nodes = 0 then Inr ('''', st)
      else (case mapWhereNodes nodes st of
              Inl e \<Rightarrow> Inl e
            | Inr (ts, st') \<Rightarrow> Inr (join_str '' AND '' ts, st')))"

section \<open>Query model\<close>

datatype QueryType = SELECT | INSERT | UPDATE | DELETE
datatype JoinType = INNER | LEFT | RIGHT | FULL
datatype Direction = ASC | DESC

fun join_type_text :: "JoinType \<Rightarrow> string" where
  "join_type_text INNER = ''INNER''"
| "join_type_text LEFT = ''LEFT''"
| "join_type_text RIGHT = ''RIGHT''"
| "join_type_text FULL = ''FULL''"

fun direction_text :: "Direction \<Rightarrow> string" where
  "direction_text ASC = ''ASC''"
| "direction_text DESC = ''DESC''"

record JoinOn =
  left :: string
  right :: string

record JoinNode =
  jtype :: JoinType
  jtable :: string
  on :: JoinOn
  jalias :: "string option"

record OrderByNode =
  column :: string
  direction :: Direction

text \<open>
  \<^verbatim>\<open>interface QueryAST\<close> without its last property \<^verbatim>\<open>with\<close>, which is the only one
  that holds other query models; \<open>qtype\<close> and \<open>qwhere\<close> are the properties \<^verbatim>\<open>type\<close> and
  \<^verbatim>\<open>where\<close>.
\<close>

record QueryFields =
  qtype :: QueryType
  table :: string
  columns :: "string list option"
  qwhere :: "WhereNode list option"
  joins :: "JoinNode list option"
  orderBy :: "OrderByNode list option"
  groupBy :: "string list option"
  having :: "WhereNode list option"
  limit :: "JSNumber option"
  offset :: "JSNumber option"

text \<open>
  The query model as the compiler reads it: a tree, \<open>qwith\<close> being the property
  \<^verbatim>\<open>with?: CTENode[]\<close> and \<^verbatim>\<open>interface CTENode { name; query }\<close>.
\<close>

datatype QueryAST = QueryAST (qfields: QueryFields) (qwith: "CTENode list option")
  and CTENode = CTENode (name: string) (query: QueryAST)

section \<open>SQL compiler: statements\<close>

text \<open>\<^verbatim>\<open>ast.columns?.join(', ') || '*'\<close>: the empty string is falsy.\<close>

definition selectList :: "string list option \<Rightarrow> string" where
  "selectList cols =
     (case cols of
        None \<Rightarrow> ''*''
      | Some cs \<Rightarrow> (if join_str '', '' cs = [] then ''*'' else join_str '', '' cs))"

definition joinSql :: "JoinNode \<Rightarrow> string" where
  "joinSql j = '' '' @ join_type_text (jtype j) @ '' JOIN '' @ jtable j
               @ '' ON '' @ left (on j) @ '' = '' @ right (on j)"

definition joinsSql :: "JoinNode list option \<Rightarrow> string" where
  "joinsSql js =
     (case js of
        None \<Rightarrow> []
      | Some l \<Rightarrow> (if length l > 0 then concat (map joinSql l) else []))"

definition predicateSql :: "string \<Rightarrow> WhereNode list option \<Rightarrow> cstate \<Rightarrow> js_error + (string \<times> cstate)" where
  "predicateSql kw nodes st =
     (case nodes of
        None \<Rightarrow> Inr ([], st)
      | Some ns \<Rightarrow>
          (if length ns > 0 then
             (case compileWhereNodes ns st of
                Inl e \<Rightarrow> Inl e
              | Inr (t, st') \<Rightarrow> Inr (kw @ t, st'))
           else Inr ([], st)))"

definition groupBySql :: "string list option \<Rightarrow> string" where
  "groupBySql g =
     (case g of
        None \<Rightarrow> []
      | Some cs \<Rightarrow> (if length cs > 0 then '' GROUP BY '' @ join_str '', '' cs else []))"

definition orderBySql :: "OrderByNode list option \<Rightarrow> string" where
  "orderBySql ob =
     (case ob of
        None \<Rightarrow> []
      | Some l \<Rightarrow>
          (if length l > 0 then
             '' ORDER BY '' @ join_str '', '' (map (\<lambda>x. column x @ '' '' @ direction_text (direction x)) l)
           else []))"

definition limitSql :: "string \<Rightarrow> JSNumber option \<Rightarrow> string" where
  "limitSql kw n = (case n of None \<Rightarrow> [] | Some i \<Rightarrow> kw @ printed i)"

text \<open>
  The body of \<^verbatim>\<open>compile\<close> from the \<^verbatim>\<open>SELECT\<close> keyword on; \<open>sql\<close> is the text emitted so
  far (empty, or the \<^verbatim>\<open>WITH\<close> clause).
\<close>

definition compileSelect :: "QueryFields \<Rightarrow> string \<Rightarrow> cstate \<Rightarrow> js_error + (string \<times> cstate)" where
  "compileSelect q sql st =
     (let sql1 = sql @ ''SELECT '' @ selectList (columns q) @ '' FROM '' @ table q @ joinsSql (joins q)
      in case predicateSql '' WHERE '' (qwhere q) st of
           Inl e \<Rightarrow> Inl e
         | Inr (w, st1) \<Rightarrow>
             (let sql2 = sql1 @ w @ groupBySql (groupBy q)
              in case predicateSql '' HAVING '' (having q) st1 of
                   Inl e \<Rightarrow> Inl e
                 | Inr (h, st2) \<Rightarrow>
                     Inr (sql2 @ h @ orderBySql (orderBy q)
                          @ limitSql '' LIMIT '' (limit q) @ limitSql '' OFFSET '' (offset q), st2)))"

text \<open>
  \<^verbatim>\<open>compile\<close>. The first two statements assign the fields of the compiler, whatever
  they held; \<open>mapCTEs\<close> is the loop \<^verbatim>\<open>ast.with.map(cte => ...)\<close>, which calls
  \<^verbatim>\<open>this.compile\<close> on the same compiler and keeps only the text of each result. The
  pair returned is the text and the compiler's fields at the return statement, whose
  \<open>params\<close> is the array returned.
\<close>

fun compile :: "QueryAST \<Rightarrow> cstate \<Rightarrow> js_error + (string \<times> cstate)"
  and mapCTEs :: "CTENode list \<Rightarrow> cstate \<Rightarrow> js_error + (string list \<times> cstate)" where
  "compile (QueryAST q w) st =
     (let st0 = st\<lparr>params := [], paramIndex := 1\<rparr>
      in case w of
           None \<Rightarrow> compileSelect q [] st0
         | Some ctes \<Rightarrow>
             (if length ctes > 0 then
                (case mapCTEs ctes st0 of
                   Inl e \<Rightarrow> Inl e
                 | Inr (parts, st1) \<Rightarrow>
                     compileSelect q (''WITH '' @ join_str '', '' parts @ '' '') st1)
              else compileSelect q [] st0))"
| "mapCTEs [] st = Inr ([], st)"
| "mapCTEs (CTENode nm sub # rest) st =
     (case compile sub st of
        Inl e \<Rightarrow> Inl e
      | Inr (cteSql, st1) \<Rightarrow>
          (case mapCTEs rest st1 of
             Inl e \<Rightarrow> Inl e
           | Inr (parts, st2) \<Rightarrow> Inr ((nm @ '' AS ('' @ cteSql @ '')'') # parts, st2)))"

text \<open>The state of a compiler just constructed.\<close>

definition newCompiler :: cstate where
  "newCompiler = \<lparr>params = [], paramIndex = 1\<rparr>"

section \<open>Relations, schema and the query builder\<close>

datatype ColumnType = TNumber | TString | TBoolean | TDate

record Column =
  col_type :: ColumnType
  nullable :: "bool option"
  col_default :: "JSValue option"
  col_unique :: "bool option"
  primaryKey :: "bool option"

type_synonym Schema = "(string \<times> (string \<times> Column) list) list"

datatype RelationType = OneToOne | OneToMany | ManyToMany

text \<open>\<^verbatim>\<open>interface Relation { from; to; type; foreignKey; references }\<close>.\<close>

record Relation =
  rel_from :: string
  rel_to :: string
  rel_type :: RelationType
  foreignKey :: string
  references :: string

text \<open>
  A builder mutates the query model it owns, and \<^verbatim>\<open>with\<close> stores the model of another
  builder as it is, an object reference. Query models therefore live in a store, and a
  named sub-query of a stored model is the address of a stored model. A builder is its
  three private fields; \<open>ast\<close> is the address of its model and is never reassigned.
\<close>

type_synonym ref = nat

record CTERef =
  cte_name :: string
  cte_query :: ref

record QueryObj =
  ofields :: QueryFields
  owith :: "CTERef list option"

type_synonym store = "QueryObj list"

record QueryBuilder =
  schema :: Schema
  relations :: "Relation list"
  ast :: ref

definition modify :: "ref \<Rightarrow> (QueryObj \<Rightarrow> QueryObj) \<Rightarrow> store \<Rightarrow> store" where
  "modify r f \<sigma> = \<sigma>[r := f (\<sigma> ! r)]"

definition setFields :: "(QueryFields \<Rightarrow> QueryFields) \<Rightarrow> QueryObj \<Rightarrow> QueryObj" where
  "setFields f obj = obj\<lparr>ofields := f (ofields obj)\<rparr>"

text \<open>The constructor allocates the model.\<close>

definition initialFields :: "string \<Rightarrow> QueryFields" where
  "initialFields tbl =
     \<lparr>qtype = SELECT, table = tbl, columns = Some [], qwhere = Some [], joins = Some [],
      orderBy = Some [], groupBy = None, having = None, limit = None, offset = None\<rparr>"

definition newQueryBuilder :: "Schema \<Rightarrow> Relation list \<Rightarrow> string \<Rightarrow> store \<Rightarrow> QueryBuilder \<times> store" where
  "newQueryBuilder sch rels tbl \<sigma> =
     (\<lparr>schema = sch, relations = rels, ast = length \<sigma>\<rparr>,
      \<sigma> @ [\<lparr>ofields = initialFields tbl, owith = None\<rparr>])"

text \<open>
  The methods of \<^verbatim>\<open>QueryBuilder\<close>, named \<open>qb_\<close> and the method's name. Each returns
  \<^verbatim>\<open>this\<close>; the model is the store after the call. \<^verbatim>\<open>x || []\<close> is \<open>or_empty x\<close>.
\<close>

definition or_empty :: "'a list option \<Rightarrow> 'a list" where
  "or_empty x = (case x of None \<Rightarrow> [] | Some l \<Rightarrow> l)"

definition qb_select :: "QueryBuilder \<Rightarrow> string list \<Rightarrow> store \<Rightarrow> store" where
  "qb_select b cols \<sigma> = modify (ast b) (setFields (\<lambda>q. q\<lparr>columns := Some cols\<rparr>)) \<sigma>"

definition qb_where :: "QueryBuilder \<Rightarrow> WhereNode list \<Rightarrow> store \<Rightarrow> store" where
  "qb_where b conditions \<sigma> =
     modify (ast b) (setFields (\<lambda>q. q\<lparr>qwhere := Some (or_empty (qwhere q) @ conditions)\<rparr>)) \<sigma>"

definition relation_between :: "string \<Rightarrow> string \<Rightarrow> Relation \<Rightarrow> bool" where
  "relation_between cur tbl r =
     ((rel_from r = cur \<and> rel_to r = tbl) \<or> (rel_to r = cur \<and> rel_from r = tbl))"

definition newJoin :: "JoinType \<Rightarrow> string \<Rightarrow> string \<Rightarrow> Relation \<Rightarrow> JoinNode" where
  "newJoin kind cur tbl r =
     \<lparr>jtype = kind, jtable = tbl,
      on = \<lparr>left = cur @ ''.'' @ foreignKey r, right = tbl @ ''.'' @ references r\<rparr>,
      jalias = None\<rparr>"

text \<open>
  \<^verbatim>\<open>join(table, type = 'INNER')\<close>: \<open>None\<close> for the kind is the omitted argument. The
  result carries the store in both outcomes, so that a mutation before the throw would
  show. \<^verbatim>\<open>this.ast.joins?.push(...)\<close> does nothing when \<^verbatim>\<open>joins\<close> is absent.
\<close>

definition qb_join :: "QueryBuilder \<Rightarrow> string \<Rightarrow> JoinType option \<Rightarrow> store \<Rightarrow> (js_error + QueryBuilder) \<times> store" where
  "qb_join b tbl kind \<sigma> =
     (let cur = table (ofields (\<sigma> ! ast b))
      in case find (relation_between cur tbl) (relations b) of
           None \<Rightarrow> (Inl (Error (''No relation defined between '' @ cur @ '' and '' @ tbl)), \<sigma>)
         | Some r \<Rightarrow>
             (Inr b,
              modify (ast b)
                (setFields (\<lambda>q. q\<lparr>joins := map_option
                   (\<lambda>js. js @ [newJoin (case kind of None \<Rightarrow> INNER | Some k \<Rightarrow> k) cur tbl r])
                   (joins q)\<rparr>)) \<sigma>))"

definition qb_orderBy :: "QueryBuilder \<Rightarrow> string \<Rightarrow> Direction option \<Rightarrow> store \<Rightarrow> store" where
  "qb_orderBy b col dir \<sigma> =
     modify (ast b)
       (setFields (\<lambda>q. q\<lparr>orderBy := map_option
          (\<lambda>l. l @ [\<lparr>column = col, direction = (case dir of None \<Rightarrow> ASC | Some d \<Rightarrow> d)\<rparr>])
          (orderBy q)\<rparr>)) \<sigma>"

definition qb_groupBy :: "QueryBuilder \<Rightarrow> string list \<Rightarrow> store \<Rightarrow> store" where
  "qb_groupBy b cols \<sigma> = modify (ast b) (setFields (\<lambda>q. q\<lparr>groupBy := Some cols\<rparr>)) \<sigma>"

definition qb_limit :: "QueryBuilder \<Rightarrow> JSNumber \<Rightarrow> store \<Rightarrow> store" where
  "qb_limit b n \<sigma> = modify (ast b) (setFields (\<lambda>q. q\<lparr>limit := Some n\<rparr>)) \<sigma>"

definition qb_offset :: "QueryBuilder \<Rightarrow> JSNumber \<Rightarrow> store \<Rightarrow> store" where
  "qb_offset b n \<sigma> = modify (ast b) (setFields (\<lambda>q. q\<lparr>offset := Some n\<rparr>)) \<sigma>"

text \<open>\<^verbatim>\<open>with(name, subquery)\<close> pushes \<^verbatim>\<open>{ name, query: subquery.ast }\<close>.\<close>

definition qb_with :: "QueryBuilder \<Rightarrow> string \<Rightarrow> QueryBuilder \<Rightarrow> store \<Rightarrow> store" where
  "qb_with b nm subquery \<sigma> =
     modify (ast b)
       (\<lambda>obj. obj\<lparr>owith := Some (or_empty (owith obj) @ [\<lparr>cte_name = nm, cte_query = ast subquery\<rparr>])\<rparr>) \<sigma>"

definition qb_getAST :: "QueryBuilder \<Rightarrow> ref" where
  "qb_getAST b = ast b"

text \<open>
  What the compiler reads from a stored model: the model with every reference followed.
  The first argument bounds the nesting followed; \<open>None\<close> says the bound was too small
  (no bound is enough for a model that reaches itself, where the compiler recurses
  until the call stack is exhausted).
\<close>

fun load :: "nat \<Rightarrow> store \<Rightarrow> ref \<Rightarrow> QueryAST option"
  and load_ctes :: "nat \<Rightarrow> store \<Rightarrow> CTERef list \<Rightarrow> CTENode list option" where
  "load 0 \<sigma> r = None"
| "load (Suc n) \<sigma> r =
     (case owith (\<sigma> ! r) of
        None \<Rightarrow> Some (QueryAST (ofields (\<sigma> ! r)) None)
      | Some cs \<Rightarrow>
          (case load_ctes n \<sigma> cs of
             None \<Rightarrow> None
           | Some ts \<Rightarrow> Some (QueryAST (ofields (\<sigma> ! r)) (Some ts))))"
| "load_ctes n \<sigma> [] = Some []"
| "load_ctes n \<sigma> (c # cs) =
     (case load n \<sigma> (cte_query c) of
        None \<Rightarrow> None
      | Some t \<Rightarrow>
          (case load_ctes n \<sigma> cs of
             None \<Rightarrow> None
           | Some ts \<Rightarrow> Some (CTENode (cte_name c) t # ts)))"

text \<open>\<^verbatim>\<open>toSQL\<close>: a new compiler for every call.\<close>

definition qb_toSQL :: "nat \<Rightarrow> QueryBuilder \<Rightarrow> store \<Rightarrow> (js_error + (string \<times> JSValue list)) option \<times> store" where
  "qb_toSQL depth b \<sigma> =
     (case load depth \<sigma> (ast b) of
        None \<Rightarrow> (None, \<sigma>)
      | Some t \<Rightarrow>
          (case compile t newCompiler of
             Inl e \<Rightarrow> (Some (Inl e), \<sigma>)
           | Inr (sql, st) \<Rightarrow> (Some (Inr (sql, params st)), \<sigma>)))"

text \<open>\<^verbatim>\<open>Database\<close> and the \<^verbatim>\<open>query\<close> of a table handle.\<close>

record Database =
  db_schema :: Schema
  db_relations :: "Relation list"

definition db_query :: "Database \<Rightarrow> string \<Rightarrow> store \<Rightarrow> QueryBuilder \<times> store" where
  "db_query db nm \<sigma> = newQueryBuilder (db_schema db) (db_relations db) nm \<sigma>"

section \<open>Reading the emitted text\<close>

text \<open>
  The placeholders of a text, in the order they occur: a \<^verbatim>\<open>$\<close> followed by at least one
  decimal digit stands for the number its longest run of digits denotes.
\<close>

definition is_digit :: "char \<Rightarrow> bool" where
  "is_digit c = (c \<in> set ''0123456789'')"

definition digit_val :: "char \<Rightarrow> nat" where
  "digit_val c = of_char c - 48"

definition read_nat :: "string \<Rightarrow> nat" where
  "read_nat s = foldl (\<lambda>acc c. 10 * acc + digit_val c) 0 s"

fun placeholders :: "string \<Rightarrow> nat list" where
  "placeholders [] = []"
| "placeholders (c # cs) =
     (if c = CHR ''$'' \<and> takeWhile is_digit cs \<noteq> []
      then read_nat (takeWhile is_digit cs) # placeholders cs
      else placeholders cs)"

definition starts_clear :: "string \<Rightarrow> bool" where
  "starts_clear t = (case t of [] \<Rightarrow> True | c # _ \<Rightarrow> \<not> is_digit c)"

text \<open>
  The values a predicate tree binds, depth first and left to right: the value of a
  comparison, the elements of the sequence of an \<^verbatim>\<open>IN\<close>, nothing for a null check.
\<close>

fun bound_values :: "WhereNode \<Rightarrow> JSValue list" where
  "bound_values (WhereNode Condition f p v ch) =
     (if p = Some OpIsNull \<or> p = Some OpIsNotNull then []
      else if p = Some OpIn then (case v of VArr vs \<Rightarrow> vs | _ \<Rightarrow> [])
      else [v])"
| "bound_values (WhereNode t f p v ch) =
     (case ch of None \<Rightarrow> [] | Some cs \<Rightarrow> concat (map bound_values cs))"

text \<open>A tree is well formed when each of its \<^verbatim>\<open>IN\<close> conditions holds a sequence.\<close>

fun wf_node :: "WhereNode \<Rightarrow> bool" where
  "wf_node (WhereNode Condition f p v ch) =
     (if p = Some OpIn then (case v of VArr vs \<Rightarrow> True | _ \<Rightarrow> False) else True)"
| "wf_node (WhereNode t f p v ch) =
     (case ch of None \<Rightarrow> True | Some cs \<Rightarrow> (\<forall>c \<in> set cs. wf_node c))"

text \<open>The field names of a tree are plain when none contains the character \<^verbatim>\<open>$\<close>.\<close>

fun plain_fields :: "WhereNode \<Rightarrow> bool" where
  "plain_fields (WhereNode Condition f p v ch) = (CHR ''$'' \<notin> set (str_or_undefined f))"
| "plain_fields (WhereNode t f p v ch) =
     (case ch of None \<Rightarrow> True | Some cs \<Rightarrow> (\<forall>c \<in> set cs. plain_fields c))"

definition wf_nodes :: "WhereNode list option \<Rightarrow> bool" where
  "wf_nodes ns = (case ns of None \<Rightarrow> True | Some l \<Rightarrow> (\<forall>n \<in> set l. wf_node n))"

fun wf_query :: "QueryAST \<Rightarrow> bool"
  and wf_ctes :: "CTENode list \<Rightarrow> bool" where
  "wf_query (QueryAST q w) =
     (wf_nodes (qwhere q) \<and> wf_nodes (having q) \<and> (case w of None \<Rightarrow> True | Some cs \<Rightarrow> wf_ctes cs))"
| "wf_ctes [] = True"
| "wf_ctes (CTENode nm sub # rest) = (wf_query sub \<and> wf_ctes rest)"

section \<open>Predicate text as a function of the next placeholder number\<close>

text \<open>
  The text of a predicate tree written without compiler state, for comparison with
  \<open>compileWhereNode\<close>: \<open>spec_text k n\<close> is the text of \<open>n\<close> when the next placeholder is
  \<open>k\<close>. A null check is \<^verbatim>\<open><field> <operator>\<close>, an \<^verbatim>\<open>IN\<close> lists one placeholder per
  element, any other condition is \<^verbatim>\<open><field> <operator> <placeholder>\<close>; \<^verbatim>\<open>And\<close> and \<^verbatim>\<open>Or\<close>
  put their children, left to right, between parentheses, and \<^verbatim>\<open>Not\<close> writes
  \<^verbatim>\<open>NOT (...)\<close>. Each child starts where the values of its left siblings end.
\<close>

definition placeholder :: "nat \<Rightarrow> string" where
  "placeholder k = CHR ''$'' # show_nat k"

fun spec_text :: "nat \<Rightarrow> WhereNode \<Rightarrow> string"
  and spec_texts :: "nat \<Rightarrow> WhereNode list \<Rightarrow> string list" where
  "spec_text k (WhereNode Condition f p v ch) =
     (if p = Some OpIsNull \<or> p = Some OpIsNotNull then
        str_or_undefined f @ '' '' @ op_or_undefined p
      else if p = Some OpIn then
        str_or_undefined f @ '' IN (''
          @ join_str '', '' (map placeholder [k ..< k + length (bound_values (WhereNode Condition f p v ch))])
          @ '')''
      else str_or_undefined f @ '' '' @ op_or_undefined p @ '' '' @ placeholder k)"
| "spec_text k (WhereNode AND f p v ch) =
     (case ch of None \<Rightarrow> ''(undefined)''
      | Some cs \<Rightarrow> ''('' @ join_str '' AND '' (spec_texts k cs) @ '')'')"
| "spec_text k (WhereNode OR f p v ch) =
     (case ch of None \<Rightarrow> ''(undefined)''
      | Some cs \<Rightarrow> ''('' @ join_str '' OR '' (spec_texts k cs) @ '')'')"
| "spec_text k (WhereNode NOT f p v ch) =
     (case ch of None \<Rightarrow> ''NOT (undefined)''
      | Some cs \<Rightarrow> ''NOT ('' @ join_str '' '' (spec_texts k cs) @ '')'')"
| "spec_texts k [] = []"
| "spec_texts k (c # cs) = spec_text k c # spec_texts (k + length (bound_values c)) cs"

text \<open>The compiler state after binding the values \<open>vs\<close>.\<close>

definition bind_values :: "JSValue list \<Rightarrow> cstate \<Rightarrow> cstate" where
  "bind_values vs st = st\<lparr>params := params st @ vs, paramIndex := paramIndex st + length vs\<rparr>"

section \<open>Example inputs\<close>

definition example_tree :: WhereNode where
  "example_tree =
     or_cond [eq ''status'' (VStr ''active''),
              and_cond [eq ''status'' (VStr ''pending''), gt ''age'' (VNum 18)]]"

text \<open>The relations of the test suite.\<close>

definition example_relations :: "Relation list" where
  "example_relations =
     [\<lparr>rel_from = ''posts'', rel_to = ''users'', rel_type = OneToMany,
       foreignKey = ''author_id'', references = ''id''\<rparr>,
      \<lparr>rel_from = ''comments'', rel_to = ''posts'', rel_type = OneToMany,
       foreignKey = ''post_id'', references = ''id''\<rparr>,
      \<lparr>rel_from = ''comments'', rel_to = ''users'', rel_type = OneToMany,
       foreignKey = ''user_id'', references = ''id''\<rparr>]"

definition example_db :: Database where
  "example_db = \<lparr>db_schema = [], db_relations = example_relations\<rparr>"

text \<open>
  The example of the README, one named sub-query:
  \<^verbatim>\<open>posts.with('active_users', users.select('id','name').where(eq('status','active')))
       .where(in('author_id', [1, 2, 3]))\<close>.
\<close>

definition single_cte :: "QueryBuilder \<times> store" where
  "single_cte =
     (let (a, s1) = db_query example_db ''users'' [];
          s2 = qb_select a [''id'', ''name''] s1;
          s3 = qb_where a [eq ''status'' (VStr ''active'')] s2;
          (p, s4) = db_query example_db ''posts'' s3;
          s5 = qb_with p ''active_users'' a s4;
          s6 = qb_where p [in_cond ''author_id'' [VNum 1, VNum 2, VNum 3]] s5
      in (p, s6))"

text \<open>
  Two sibling named sub-queries, each with a predicate, under an outer query with one:
  \<^verbatim>\<open>posts.with('a', users.where(eq('status','active')))
       .with('b', comments.where(eq('text','spam'))).where(gt('views', 10))\<close>.
  The result is the outer builder and the store.
\<close>

definition sibling_ctes :: "QueryBuilder \<times> store" where
  "sibling_ctes =
     (let (a, s1) = db_query example_db ''users'' [];
          s2 = qb_where a [eq ''status'' (VStr ''active'')] s1;
          (c, s3) = db_query example_db ''comments'' s2;
          s4 = qb_where c [eq ''text'' (VStr ''spam'')] s3;
          (p, s5) = db_query example_db ''posts'' s4;
          s6 = qb_with p ''a'' a s5;
          s7 = qb_with p ''b'' c s6;
          s8 = qb_where p [gt ''views'' (VNum 10)] s7
      in (p, s8))"

text \<open>
  A sub-builder bound with \<^verbatim>\<open>with\<close> and changed afterwards:
  \<^verbatim>\<open>s = users.query(); b = posts.query().with('u', s)\<close>, then \<^verbatim>\<open>s.limit(5)\<close>.
  \<open>rebound_before\<close> is the store after \<^verbatim>\<open>with\<close>, \<open>rebound_after\<close> the store after
  \<^verbatim>\<open>limit\<close>.
\<close>

definition rebound_s :: QueryBuilder where
  "rebound_s = fst (db_query example_db ''users'' [])"

definition rebound_b :: QueryBuilder where
  "rebound_b = fst (db_query example_db ''posts'' (snd (db_query example_db ''users'' [])))"

definition rebound_before :: store where
  "rebound_before =
     qb_with rebound_b ''u'' rebound_s
       (snd (db_query example_db ''posts'' (snd (db_query example_db ''users'' []))))"

definition rebound_after :: store where
  "rebound_after = qb_limit rebound_s (Num ''5'') rebound_before"

text \<open>
  The test with two joins: \<^verbatim>\<open>comments.query().join('posts', 'INNER')\<close>, to which
  \<^verbatim>\<open>.join('users', 'LEFT')\<close> is applied next; and a builder on \<^verbatim>\<open>users\<close> alone.
\<close>

definition comments_b :: QueryBuilder where
  "comments_b = fst (db_query example_db ''comments'' [])"

definition comments_joined :: store where
  "comments_joined =
     snd (qb_join comments_b ''posts'' (Some INNER) (snd (db_query example_db ''comments'' [])))"

text \<open>
  A statement is plain when \<^verbatim>\<open>$\<close> occurs in none of the names it is built from: table,
  columns, join tables and on-clauses, grouping and ordering columns, predicate fields,
  and the printed limit and offset (no number prints with one).
\<close>

definition plain_text :: "string \<Rightarrow> bool" where
  "plain_text s = (CHR ''$'' \<notin> set s)"

definition plain_query :: "QueryFields \<Rightarrow> bool" where
  "plain_query q =
     (plain_text (table q)
      \<and> (\<forall>c \<in> set (or_empty (columns q)). plain_text c)
      \<and> (\<forall>j \<in> set (or_empty (joins q)).
            plain_text (jtable j) \<and> plain_text (left (on j)) \<and> plain_text (right (on j)))
      \<and> (\<forall>c \<in> set (or_empty (groupBy q)). plain_text c)
      \<and> (\<forall>x \<in> set (or_empty (orderBy q)). plain_text (column x))
      \<and> (\<forall>n \<in> set (or_empty (qwhere q)). plain_fields n)
      \<and> (\<forall>n \<in> set (or_empty (having q)). plain_fields n)
      \<and> (\<forall>i \<in> set_option (limit q). plain_text (printed i))
      \<and> (\<forall>i \<in> set_option (offset q). plain_text (printed i)))"

text \<open>The values a list of predicates binds, in order.\<close>

definition bound_values_of :: "WhereNode list option \<Rightarrow> JSValue list" where
  "bound_values_of ns = concat (map bound_values (or_empty ns))"

text \<open>A piece of text that is empty or begins with a blank.\<close>

definition spaced :: "string \<Rightarrow> bool" where
  "spaced t = (t = [] \<or> hd t = CHR '' '')"


section \<open>Placeholders of the emitted text\<close>

lemma lt10: "d < 10 \<Longrightarrow> d = 0 \<or> d = 1 \<or> d = 2 \<or> d = 3 \<or> d = 4 \<or> d = 5 \<or> d = 6 \<or> d = 7 \<or> d = 8 \<or> d = (9::nat)"
  by arith

lemma digit_char_is_digit: "d < 10 \<Longrightarrow> is_digit (digit_char d)"
  by (drule lt10) (auto simp: is_digit_def digit_char_def)

lemma digit_val_char: "d < 10 \<Longrightarrow> digit_val (digit_char d) = d"
  by (drule lt10) (auto simp: digit_val_def digit_char_def)

lemma show_nat_digits: "c \<in> set (show_nat n) \<Longrightarrow> is_digit c"
proof (induction n arbitrary: c rule: show_nat.induct)
  case (1 n)
  show ?case
  proof (cases "n < 10")
    case True
    with "1.prems" show ?thesis
      by (simp add: show_nat.simps [of n] digit_char_is_digit)
  next
    case False
    with "1.prems" "1.IH" show ?thesis
      by (auto simp: show_nat.simps [of n] digit_char_is_digit)
  qed
qed

lemma show_nat_nonempty: "show_nat n \<noteq> []"
  by (simp add: show_nat.simps [of n])

lemma read_nat_snoc: "read_nat (s @ [c]) = 10 * read_nat s + digit_val c"
  by (simp add: read_nat_def)

lemma read_nat_show: "read_nat (show_nat n) = n"
proof (induction n rule: show_nat.induct)
  case (1 n)
  show ?case
  proof (cases "n < 10")
    case True
    then show ?thesis
      by (simp add: show_nat.simps [of n] read_nat_def digit_val_char)
  next
    case False
    with "1.IH" show ?thesis
      by (simp add: show_nat.simps [of n] read_nat_snoc digit_val_char)
  qed
qed

lemma digit_not_dollar: "is_digit c \<Longrightarrow> c \<noteq> CHR ''$''"
  by (auto simp: is_digit_def)

lemma placeholders_no_dollar: "CHR ''$'' \<notin> set s \<Longrightarrow> placeholders s = []"
  by (induction s) auto

lemma placeholders_skip: "CHR ''$'' \<notin> set s \<Longrightarrow> placeholders (s @ t) = placeholders t"
  by (induction s) auto

lemma takeWhile_digit_append:
  "starts_clear t \<Longrightarrow> takeWhile is_digit (s @ t) = takeWhile is_digit s"
  by (induction s) (auto simp: starts_clear_def split: list.splits)

lemma placeholders_append:
  "starts_clear t \<Longrightarrow> placeholders (s @ t) = placeholders s @ placeholders t"
  by (induction s) (auto simp: takeWhile_digit_append)

lemma placeholders_one:
  "starts_clear t \<Longrightarrow> placeholders (CHR ''$'' # show_nat n @ t) = n # placeholders t"
proof -
  assume t: "starts_clear t"
  have "takeWhile is_digit (show_nat n @ t) = takeWhile is_digit (show_nat n)"
    using t by (rule takeWhile_digit_append)
  also have "\<dots> = show_nat n"
    by (simp add: takeWhile_eq_all_conv show_nat_digits)
  finally have tw: "takeWhile is_digit (show_nat n @ t) = show_nat n" .
  have nd: "CHR ''$'' \<notin> set (show_nat n)"
    using show_nat_digits digit_not_dollar by blast
  show ?thesis
    by (simp add: tw show_nat_nonempty read_nat_show placeholders_skip [OF nd])
qed

lemma placeholders_join:
  "CHR ''$'' \<notin> set sep \<Longrightarrow> sep \<noteq> [] \<Longrightarrow> starts_clear sep \<Longrightarrow>
   placeholders (join_str sep ts) = concat (map placeholders ts)"
proof (induction sep ts rule: join_str.induct)
  case (3 sep x y ys)
  have sc: "starts_clear (sep @ join_str sep (y # ys))"
    using "3.prems"(2,3) by (cases sep) (auto simp: starts_clear_def)
  have "placeholders (join_str sep (x # y # ys)) = placeholders x @ placeholders (sep @ join_str sep (y # ys))"
    using sc by (simp add: placeholders_append)
  also have "\<dots> = placeholders x @ placeholders (join_str sep (y # ys))"
    using "3.prems"(1) by (simp add: placeholders_skip)
  finally show ?case
    using 3 by simp
qed simp_all

lemma inPlaceholders_eq:
  "inPlaceholders vs st =
     (map (\<lambda>i. CHR ''$'' # show_nat i) [paramIndex st ..< paramIndex st + length vs],
      st\<lparr>params := params st @ vs, paramIndex := paramIndex st + length vs\<rparr>)"
proof (induction vs arbitrary: st)
  case Nil
  show ?case by simp
next
  case (Cons v vs)
  have "[paramIndex st ..< paramIndex st + length (v # vs)] =
        paramIndex st # [Suc (paramIndex st) ..< Suc (paramIndex st) + length vs]"
    by (simp add: upt_conv_Cons del: upt_Suc)
  then show ?case
    by (simp add: Cons.IH Let_def del: upt_Suc)
qed


lemma compile_state:
  "wf_node n \<Longrightarrow> \<exists>t. compileWhereNode n st =
      Inr (t, st\<lparr>params := params st @ bound_values n,
                   paramIndex := paramIndex st + length (bound_values n)\<rparr>)"
  "(\<forall>c \<in> set cs. wf_node c) \<Longrightarrow> \<exists>ts. mapWhereNodes cs st =
      Inr (ts, st\<lparr>params := params st @ concat (map bound_values cs),
                    paramIndex := paramIndex st + length (concat (map bound_values cs))\<rparr>)"
proof (induction n st and cs st rule: compileWhereNode_mapWhereNodes.induct)
  case (1 f p v ch st)
  then show ?case
    by (auto simp: inPlaceholders_eq split: JSValue.splits)
next
  case (2 f p v ch st)
  then show ?case by (cases ch) auto
next
  case (3 f p v ch st)
  then show ?case by (cases ch) auto
next
  case (4 f p v ch st)
  then show ?case by (cases ch) auto
next
  case (5 st)
  show ?case by simp
next
  case (6 c cs st)
  let ?st1 = "st\<lparr>params := params st @ bound_values c,
                    paramIndex := paramIndex st + length (bound_values c)\<rparr>"
  from 6 obtain t where t: "compileWhereNode c st = Inr (t, ?st1)"
    by auto
  from "6.IH"(2) [OF t refl] "6.prems" obtain ts where
    ts: "mapWhereNodes cs ?st1 =
         Inr (ts, ?st1\<lparr>params := params ?st1 @ concat (map bound_values cs),
                        paramIndex := paramIndex ?st1 + length (concat (map bound_values cs))\<rparr>)"
    by auto
  show ?case
    by (simp add: t ts add.assoc)
qed


declare placeholders.simps(2) [simp del]

lemma op_no_dollar: "CHR ''$'' \<notin> set (op_or_undefined p)"
  by (cases p; simp add: op_or_undefined_def; case_tac a; simp)

lemma placeholders_wrap:
  "CHR ''$'' \<notin> set pre \<Longrightarrow> CHR ''$'' \<notin> set post \<Longrightarrow> starts_clear post \<Longrightarrow>
   placeholders (pre @ body @ post) = placeholders body"
  by (simp add: placeholders_skip placeholders_append placeholders_no_dollar)

lemma placeholders_single: "placeholders (CHR ''$'' # show_nat n) = [n]"
  using placeholders_one [of "[]" n] by (simp add: starts_clear_def)

lemma placeholders_list:
  "concat (map placeholders (map (\<lambda>i. CHR ''$'' # show_nat i) is)) = is"
  by (induction "is") (simp_all add: placeholders_single)

lemma placeholders_cond:
  assumes "CHR ''$'' \<notin> set a"
  shows "placeholders (a @ '' '' @ op_or_undefined p @ '' $'' @ show_nat k) = [k]"
proof -
  have "CHR ''$'' \<notin> set (a @ '' '' @ op_or_undefined p @ '' '')"
    using assms op_no_dollar by simp
  from placeholders_skip [OF this, of "CHR ''$'' # show_nat k"]
  show ?thesis by (simp add: placeholders_single)
qed

lemma placeholders_in:
  assumes "CHR ''$'' \<notin> set a"
  shows "placeholders (a @ '' IN ('' @ join_str '', '' (map (\<lambda>i. CHR ''$'' # show_nat i) is) @ '')'') = is"
proof -
  have "placeholders ((a @ '' IN ('') @ join_str '', '' (map (\<lambda>i. CHR ''$'' # show_nat i) is) @ '')'')
        = placeholders (join_str '', '' (map (\<lambda>i. CHR ''$'' # show_nat i) is))"
    using assms by (intro placeholders_wrap) (simp_all add: starts_clear_def is_digit_def)
  also have "\<dots> = is"
    using placeholders_list [of "is"]
    by (simp add: placeholders_join starts_clear_def is_digit_def)
  finally show ?thesis by simp
qed

lemma compile_text:
  "plain_fields n \<Longrightarrow> compileWhereNode n st = Inr (t, st') \<Longrightarrow>
     paramIndex st \<le> paramIndex st' \<and> placeholders t = [paramIndex st ..< paramIndex st']"
  "(\<forall>c \<in> set cs. plain_fields c) \<Longrightarrow> mapWhereNodes cs st = Inr (ts, st') \<Longrightarrow>
     paramIndex st \<le> paramIndex st' \<and> concat (map placeholders ts) = [paramIndex st ..< paramIndex st']"
proof (induction n st and cs st arbitrary: t st' and ts st' rule: compileWhereNode_mapWhereNodes.induct)
  case (1 f p v ch st)
  from "1.prems"(1) have cl: "CHR ''$'' \<notin> set (str_or_undefined f)"
    by simp
  consider (null) "p = Some OpIsNull \<or> p = Some OpIsNotNull"
    | (inn) "p = Some OpIn"
    | (other) "p \<noteq> Some OpIsNull" "p \<noteq> Some OpIsNotNull" "p \<noteq> Some OpIn"
    by blast
  then show ?case
  proof cases
    case null
    with "1.prems"(2) have "t = str_or_undefined f @ '' '' @ op_or_undefined p" "st' = st"
      by auto
    then show ?thesis
      using cl op_no_dollar [of p] by (simp add: placeholders_no_dollar)
  next
    case inn
    with "1.prems"(2) obtain vs where v: "v = VArr vs"
      by (auto split: JSValue.splits)
    let ?is = "[paramIndex st ..< paramIndex st + length vs]"
    from "1.prems"(2) inn v
    have t: "t = str_or_undefined f @ '' IN ('' @ join_str '', '' (map (\<lambda>i. CHR ''$'' # show_nat i) ?is) @ '')''"
      and st': "paramIndex st' = paramIndex st + length vs"
      by (auto simp: inPlaceholders_eq)
    show ?thesis
      using placeholders_in [OF cl, of ?is] by (simp add: t st')
  next
    case other
    with "1.prems"(2)
    have t: "t = str_or_undefined f @ '' '' @ op_or_undefined p @ '' $'' @ show_nat (paramIndex st)"
      and st': "paramIndex st' = Suc (paramIndex st)"
      by (auto simp: Let_def)
    show ?thesis
      using placeholders_cond [OF cl, of p "paramIndex st"] by (simp add: t st')
  qed
next
  case (2 f p v ch st)
  show ?case
  proof (cases ch)
    case None
    with 2 show ?thesis by (auto simp: placeholders_no_dollar)
  next
    case (Some cs)
    with "2.prems" obtain ts where ts: "mapWhereNodes cs st = Inr (ts, st')"
      and t: "t = ''('' @ join_str '' AND '' ts @ '')''"
      by (auto split: sum.splits)
    from "2.IH" [OF Some _ ts] "2.prems"(1) Some
    have "paramIndex st \<le> paramIndex st' \<and> concat (map placeholders ts) = [paramIndex st ..< paramIndex st']"
      by simp
    moreover have "placeholders t = placeholders (join_str '' AND '' ts)"
      unfolding t by (intro placeholders_wrap) (simp_all add: starts_clear_def is_digit_def)
    ultimately show ?thesis
      by (simp add: placeholders_join starts_clear_def is_digit_def)
  qed
next
  case (3 f p v ch st)
  show ?case
  proof (cases ch)
    case None
    with 3 show ?thesis by (auto simp: placeholders_no_dollar)
  next
    case (Some cs)
    with "3.prems" obtain ts where ts: "mapWhereNodes cs st = Inr (ts, st')"
      and t: "t = ''('' @ join_str '' OR '' ts @ '')''"
      by (auto split: sum.splits)
    from "3.IH" [OF Some _ ts] "3.prems"(1) Some
    have "paramIndex st \<le> paramIndex st' \<and> concat (map placeholders ts) = [paramIndex st ..< paramIndex st']"
      by simp
    moreover have "placeholders t = placeholders (join_str '' OR '' ts)"
      unfolding t by (intro placeholders_wrap) (simp_all add: starts_clear_def is_digit_def)
    ultimately show ?thesis
      by (simp add: placeholders_join starts_clear_def is_digit_def)
  qed
next
  case (4 f p v ch st)
  show ?case
  proof (cases ch)
    case None
    with 4 show ?thesis by (auto simp: placeholders_no_dollar)
  next
    case (Some cs)
    with "4.prems" obtain ts where ts: "mapWhereNodes cs st = Inr (ts, st')"
      and t: "t = ''NOT ('' @ join_str '' '' ts @ '')''"
      by (auto split: sum.splits)
    from "4.IH" [OF Some _ ts] "4.prems"(1) Some
    have "paramIndex st \<le> paramIndex st' \<and> concat (map placeholders ts) = [paramIndex st ..< paramIndex st']"
      by simp
    moreover have "placeholders t = placeholders (join_str '' '' ts)"
      unfolding t by (intro placeholders_wrap) (simp_all add: starts_clear_def is_digit_def)
    ultimately show ?thesis
      by (simp add: placeholders_join starts_clear_def is_digit_def)
  qed
next
  case (5 st)
  then show ?case by simp
next
  case (6 c cs st)
  from "6.prems"(2) obtain t1 st1 ts1 where
    c: "compileWhereNode c st = Inr (t1, st1)" and
    cs: "mapWhereNodes cs st1 = Inr (ts1, st')" and
    ts: "ts = t1 # ts1"
    by (auto split: sum.splits)
  from "6.IH"(1) [OF _ c] "6.prems"(1)
  have h1: "paramIndex st \<le> paramIndex st1 \<and> placeholders t1 = [paramIndex st ..< paramIndex st1]"
    by simp
  from "6.IH"(2) [OF c refl _ cs] "6.prems"(1)
  have h2: "paramIndex st1 \<le> paramIndex st' \<and> concat (map placeholders ts1) = [paramIndex st1 ..< paramIndex st']"
    by simp
  from h1 h2 have "[paramIndex st ..< paramIndex st1] @ [paramIndex st1 ..< paramIndex st'] = [paramIndex st ..< paramIndex st']"
    by (metis le_Suc_ex upt_add_eq_append)
  with h1 h2 show ?case
    by (simp add: ts)
qed

section \<open>Predicate compilation\<close>

lemmas factory_defs =
  cond_def eq_def ne_def gt_def lt_def gte_def lte_def like_def in_cond_def isNull_def
  isNotNull_def and_cond_def or_cond_def not_cond_def

lemma show_nat_small: "n < 10 \<Longrightarrow> show_nat n = [digit_char n]"
  by (simp add: show_nat.simps [of n])

text \<open>
  One predicate tree, on its own. If its \<^verbatim>\<open>IN\<close> conditions hold sequences and its field
  names do not contain \<^verbatim>\<open>$\<close>, and the compiler's counter is one more than the number of
  parameters collected so far, then compiling it succeeds, the placeholders that occur in
  its text are, in text order, the consecutive numbers from the first free one up to the
  length of the parameter list afterwards, and the parameter at position \<open>N - 1\<close> is the
  value the tree binds at its placeholder \<^verbatim>\<open>$N\<close>.
\<close>

lemma tree_placeholders_match_params:
  assumes "wf_node n" and "plain_fields n" and "paramIndex st = Suc (length (params st))"
  shows "\<exists>t st'. compileWhereNode n st = Inr (t, st')
           \<and> params st' = params st @ bound_values n
           \<and> paramIndex st' = Suc (length (params st'))
           \<and> placeholders t = [Suc (length (params st)) ..< Suc (length (params st'))]
           \<and> (\<forall>i < length (bound_values n).
                 params st' ! (placeholders t ! i - 1) = bound_values n ! i)"
proof -
  let ?st' = "st\<lparr>params := params st @ bound_values n,
                  paramIndex := paramIndex st + length (bound_values n)\<rparr>"
  from compile_state(1) [OF assms(1), of st]
  obtain t where t: "compileWhereNode n st = Inr (t, ?st')"
    by blast
  from compile_text(1) [OF assms(2) t]
  have ph: "placeholders t = [paramIndex st ..< paramIndex ?st']"
    by simp
  have ph': "placeholders t = [Suc (length (params st)) ..< Suc (length (params ?st'))]"
    using ph assms(3) by simp
  have "params ?st' ! (placeholders t ! i - 1) = bound_values n ! i"
    if "i < length (bound_values n)" for i
  proof -
    have "placeholders t ! i = Suc (length (params st)) + i"
      using that by (simp add: ph' del: upt_Suc)
    then show ?thesis
      by (simp add: nth_append)
  qed
  with t ph' assms(3) show ?thesis
    by (intro exI [of _ t] exI [of _ ?st']) (simp del: upt_Suc)
qed

text \<open>
  C3. A condition whose operator is \<^verbatim>\<open>IN\<close>, over a sequence of \<open>k\<close> values, compiles to
  \<^verbatim>\<open><field> IN (...)\<close> with the \<open>k\<close> placeholders numbered from the counter on, separated
  by commas, and appends the \<open>k\<close> elements, in order, to the parameters; so does the node
  that \<^verbatim>\<open>in(field, values)\<close> builds.
\<close>

theorem in_condition_binds_elements:
  "compileWhereNode (WhereNode Condition f (Some OpIn) (VArr vs) ch) st =
     Inr (str_or_undefined f @ '' IN (''
            @ join_str '', '' (map (\<lambda>i. CHR ''$'' # show_nat i)
                                  [paramIndex st ..< paramIndex st + length vs])
            @ '')'',
          st\<lparr>params := params st @ vs, paramIndex := paramIndex st + length vs\<rparr>)
   \<and> compileWhereNode (in_cond fld vs) st =
     Inr (fld @ '' IN (''
            @ join_str '', '' (map (\<lambda>i. CHR ''$'' # show_nat i)
                                  [paramIndex st ..< paramIndex st + length vs])
            @ '')'',
          st\<lparr>params := params st @ vs, paramIndex := paramIndex st + length vs\<rparr>)
   \<and> length (map (\<lambda>i. CHR ''$'' # show_nat i) [paramIndex st ..< paramIndex st + length vs])
       = length vs"
  by (simp add: in_cond_def cond_def inPlaceholders_eq str_or_undefined_def)

theorem in_condition_binds_elements_witness:
  "compileWhereNode (in_cond ''author_id'' [VNum 1, VNum 2, VNum 3]) newCompiler =
     Inr (''author_id IN ($1, $2, $3)'',
          \<lparr>params = [VNum 1, VNum 2, VNum 3], paramIndex = 4\<rparr>)"
  using in_condition_binds_elements
          [of "Some ''author_id''" "[VNum 1, VNum 2, VNum 3]" None newCompiler "''author_id''"]
  by (simp add: newCompiler_def upt_conv_Cons show_nat_small digit_char_def)

text \<open>
  C10. An \<^verbatim>\<open>And\<close> or \<^verbatim>\<open>Or\<close> node with an empty list of children, as \<^verbatim>\<open>and()\<close> and
  \<^verbatim>\<open>or()\<close> build it, compiles to the text \<^verbatim>\<open>()\<close> and leaves the counter and the
  parameters as they were.
\<close>

theorem empty_group_compiles_to_parens:
  "compileWhereNode (WhereNode AND f p v (Some [])) st = Inr (''()'', st)
   \<and> compileWhereNode (WhereNode OR f p v (Some [])) st = Inr (''()'', st)
   \<and> compileWhereNode (and_cond []) st = Inr (''()'', st)
   \<and> compileWhereNode (or_cond []) st = Inr (''()'', st)"
  by (simp add: and_cond_def or_cond_def)

lemma compile_refines:
  "wf_node n \<Longrightarrow>
     compileWhereNode n st = Inr (spec_text (paramIndex st) n, bind_values (bound_values n) st)"
  "(\<forall>c \<in> set cs. wf_node c) \<Longrightarrow>
     mapWhereNodes cs st =
       Inr (spec_texts (paramIndex st) cs, bind_values (concat (map bound_values cs)) st)"
proof (induction n st and cs st rule: compileWhereNode_mapWhereNodes.induct)
  case (1 f p v ch st)
  then show ?case
    by (auto simp: inPlaceholders_eq bind_values_def placeholder_def [abs_def] split: JSValue.splits)
next
  case (2 f p v ch st)
  then show ?case by (cases ch) (auto simp: bind_values_def)
next
  case (3 f p v ch st)
  then show ?case by (cases ch) (auto simp: bind_values_def)
next
  case (4 f p v ch st)
  then show ?case by (cases ch) (auto simp: bind_values_def)
next
  case (5 st)
  show ?case by (simp add: bind_values_def)
next
  case (6 c cs st)
  from 6 have c: "compileWhereNode c st = Inr (spec_text (paramIndex st) c, bind_values (bound_values c) st)"
    by simp
  from "6.IH"(2) [OF c refl] "6.prems"
  have cs: "mapWhereNodes cs (bind_values (bound_values c) st) =
          Inr (spec_texts (paramIndex (bind_values (bound_values c) st)) cs,
               bind_values (concat (map bound_values cs)) (bind_values (bound_values c) st))"
    by simp
  show ?case
    by (simp add: c cs) (simp add: bind_values_def)
qed

text \<open>
  C8. Predicates compile depth first and left to right: the text of a well-formed tree is
  \<open>spec_text\<close> at the current counter, and its values are bound in that order. A
  top-level list is its members' texts joined with \<^verbatim>\<open> AND \<close> and no parentheses around
  the whole, while \<^verbatim>\<open>And\<close> and \<^verbatim>\<open>Or\<close> nodes are parenthesised; the tree
  \<^verbatim>\<open>Or(eq(status,'active'), And(eq(status,'pending'), gt(age,18)))\<close> compiles to
  \<^verbatim>\<open>(status = $1 OR (status = $2 AND age > $3))\<close> with the parameters
  \<^verbatim>\<open>["active", "pending", 18]\<close>.
\<close>

theorem predicate_nesting:
  "(wf_node n \<longrightarrow>
      compileWhereNode n st = Inr (spec_text (paramIndex st) n, bind_values (bound_values n) st))
   \<and> (ns \<noteq> [] \<longrightarrow> (\<forall>c \<in> set ns. wf_node c) \<longrightarrow>
        compileWhereNodes ns st =
          Inr (join_str '' AND '' (spec_texts (paramIndex st) ns),
               bind_values (concat (map bound_values ns)) st))
   \<and> compileWhereNode example_tree newCompiler =
        Inr (''(status = $1 OR (status = $2 AND age > $3))'',
             \<lparr>params = [VStr ''active'', VStr ''pending'', VNum 18], paramIndex = 4\<rparr>)"
proof (intro conjI impI)
  assume "wf_node n"
  then show "compileWhereNode n st = Inr (spec_text (paramIndex st) n, bind_values (bound_values n) st)"
    by (rule compile_refines(1))
next
  assume "ns \<noteq> []" and "\<forall>c \<in> set ns. wf_node c"
  then show "compileWhereNodes ns st =
          Inr (join_str '' AND '' (spec_texts (paramIndex st) ns),
               bind_values (concat (map bound_values ns)) st)"
    by (simp add: compileWhereNodes_def compile_refines(2))
next
  show "compileWhereNode example_tree newCompiler =
        Inr (''(status = $1 OR (status = $2 AND age > $3))'',
             \<lparr>params = [VStr ''active'', VStr ''pending'', VNum 18], paramIndex = 4\<rparr>)"
    by (simp add: example_tree_def factory_defs newCompiler_def str_or_undefined_def
        op_or_undefined_def show_nat_small digit_char_def)
qed

theorem predicate_nesting_witness:
  "wf_node example_tree \<and> [lt ''age'' (VNum 65), example_tree] \<noteq> []
   \<and> wf_node (lt ''age'' (VNum 65))
   \<and> compileWhereNode example_tree newCompiler = Inr (''(status = $1 OR (status = $2 AND age > $3))'',
             \<lparr>params = [VStr ''active'', VStr ''pending'', VNum 18], paramIndex = 4\<rparr>)
   \<and> compileWhereNodes [lt ''age'' (VNum 65), example_tree] newCompiler =
        Inr (''age < $1 AND (status = $2 OR (status = $3 AND age > $4))'',
             \<lparr>params = [VNum 65, VStr ''active'', VStr ''pending'', VNum 18], paramIndex = 5\<rparr>)"
  using predicate_nesting [of example_tree newCompiler "[lt ''age'' (VNum 65), example_tree]"]
  by (simp add: example_tree_def factory_defs newCompiler_def str_or_undefined_def placeholder_def
        op_or_undefined_def show_nat_small digit_char_def bind_values_def)

section \<open>Statement compilation\<close>

lemma reset_state: "st\<lparr>params := [], paramIndex := 1\<rparr> = newCompiler"
  by (simp add: newCompiler_def)

lemmas builder_defs =
  db_query_def newQueryBuilder_def initialFields_def qb_where_def qb_with_def qb_limit_def
  qb_select_def modify_def setFields_def or_empty_def example_db_def

lemmas sql_defs =
  compileSelect_def predicateSql_def compileWhereNodes_def selectList_def joinsSql_def
  groupBySql_def orderBySql_def limitSql_def str_or_undefined_def op_or_undefined_def
  show_nat_small digit_char_def

text \<open>
  With one named sub-query the stream is continuous, as the README shows it: the
  sub-query takes \<^verbatim>\<open>$1\<close> and the outer statement goes on with \<^verbatim>\<open>$2\<close>.
\<close>

lemma single_cte_stream:
  "fst (qb_toSQL 2 (fst single_cte) (snd single_cte)) =
     Some (Inr (''WITH active_users AS (SELECT id, name FROM users WHERE status = $1) SELECT * FROM posts WHERE author_id IN ($2, $3, $4)'',
                [VStr ''active'', VNum 1, VNum 2, VNum 3]))"
proof -
  have st: "single_cte =
     (\<lparr>schema = [], relations = example_relations, ast = 1\<rparr>,
      [\<lparr>ofields = (initialFields ''users'')
                   \<lparr>columns := Some [''id'', ''name''],
                     qwhere := Some [eq ''status'' (VStr ''active'')]\<rparr>, owith = None\<rparr>,
       \<lparr>ofields = (initialFields ''posts'')
                   \<lparr>qwhere := Some [in_cond ''author_id'' [VNum 1, VNum 2, VNum 3]]\<rparr>,
        owith = Some [\<lparr>cte_name = ''active_users'', cte_query = 0\<rparr>]\<rparr>])"
    by (simp add: single_cte_def builder_defs)
  show ?thesis
    by (simp add: st qb_toSQL_def numeral_2_eq_2 initialFields_def reset_state factory_defs)
       (simp add: newCompiler_def sql_defs)
qed

lemma sibling_ctes_store:
  "sibling_ctes =
     (\<lparr>schema = [], relations = example_relations, ast = 2\<rparr>,
      [\<lparr>ofields = (initialFields ''users'')\<lparr>qwhere := Some [eq ''status'' (VStr ''active'')]\<rparr>, owith = None\<rparr>,
       \<lparr>ofields = (initialFields ''comments'')\<lparr>qwhere := Some [eq ''text'' (VStr ''spam'')]\<rparr>, owith = None\<rparr>,
       \<lparr>ofields = (initialFields ''posts'')\<lparr>qwhere := Some [gt ''views'' (VNum 10)]\<rparr>,
        owith = Some [\<lparr>cte_name = ''a'', cte_query = 0\<rparr>, \<lparr>cte_name = ''b'', cte_query = 1\<rparr>]\<rparr>])"
  by (simp add: sibling_ctes_def builder_defs)

text \<open>
  C1. One call of \<^verbatim>\<open>compile\<close> on a model with named sub-queries should give one
  parameter stream, every sub-query continuing the numbering and keeping what was
  collected before it. Evaluated on two sibling sub-queries: \<^verbatim>\<open>compile\<close> assigns the
  fields of the compiler again when it is called for the second sub-query, so the text of
  \<^verbatim>\<open>b\<close> starts at \<^verbatim>\<open>$1\<close> once more and the parameter \<^verbatim>\<open>"active"\<close> of \<^verbatim>\<open>a\<close> is not
  among the parameters returned.
\<close>

theorem sibling_cte_restarts_numbering:
  "fst (qb_toSQL 2 (fst sibling_ctes) (snd sibling_ctes)) =
     Some (Inr (''WITH a AS (SELECT * FROM users WHERE status = $1), b AS (SELECT * FROM comments WHERE text = $1) SELECT * FROM posts WHERE views > $2'',
                [VStr ''spam'', VNum 10]))"
  by (simp add: sibling_ctes_store qb_toSQL_def numeral_2_eq_2 initialFields_def reset_state factory_defs)
     (simp add: newCompiler_def sql_defs)

text \<open>
  C2. In the text and the parameters that one call of \<^verbatim>\<open>compile\<close> returns, the
  placeholders should be \<^verbatim>\<open>$1\<close> to \<^verbatim>\<open>$n\<close> for \<open>n\<close> parameters, each \<^verbatim>\<open>$N\<close> bound to
  the parameter at position \<open>N - 1\<close>, none reused. Evaluated on the same two sibling
  sub-queries: the placeholders of the text returned are 1, 1 and 2, three for two
  parameters and the first number twice; the first parameter is the value of sub-query
  \<^verbatim>\<open>b\<close>, and the value \<^verbatim>\<open>"active"\<close> that sub-query \<^verbatim>\<open>a\<close> binds at its \<^verbatim>\<open>$1\<close> is not
  among the parameters.
\<close>

theorem sibling_cte_placeholders_mismatch:
  "(case fst (qb_toSQL 2 (fst sibling_ctes) (snd sibling_ctes)) of
      Some (Inr (sql, ps)) \<Rightarrow>
        placeholders sql = [1, 1, 2] \<and> length ps = 2 \<and> ps ! 0 = VStr ''spam''
        \<and> VStr ''active'' \<notin> set ps
    | _ \<Rightarrow> False)"
proof -
  have r: "fst (qb_toSQL 2 (fst sibling_ctes) (snd sibling_ctes)) =
     Some (Inr (''WITH a AS (SELECT * FROM users WHERE status = $1), b AS (SELECT * FROM comments WHERE text = $1) SELECT * FROM posts WHERE views > $2'',
                [VStr ''spam'', VNum 10]))"
    by (simp add: sibling_ctes_store qb_toSQL_def numeral_2_eq_2 initialFields_def reset_state factory_defs)
       (simp add: newCompiler_def sql_defs)
  have p: "placeholders ''WITH a AS (SELECT * FROM users WHERE status = $1), b AS (SELECT * FROM comments WHERE text = $1) SELECT * FROM posts WHERE views > $2'' = [1, 1, 2]"
    by (simp add: placeholders.simps(2) is_digit_def read_nat_def digit_val_def)
  show ?thesis
    unfolding r by (simp add: p)
qed

lemma reset_state_Suc: "st\<lparr>params := [], paramIndex := Suc 0\<rparr> = newCompiler"
  by (simp add: newCompiler_def)

lemma compile_unfold:
  "compile (QueryAST q w) st =
     (case w of
        None \<Rightarrow> compileSelect q [] newCompiler
      | Some ctes \<Rightarrow>
          (if ctes = [] then compileSelect q [] newCompiler
           else (case mapCTEs ctes newCompiler of
                   Inl e \<Rightarrow> Inl e
                 | Inr (parts, st1) \<Rightarrow>
                     compileSelect q (''WITH '' @ join_str '', '' parts @ '' '') st1)))"
  by (simp add: reset_state_Suc split: option.splits)

lemma mapWhereNodes_total:
  "(\<forall>c \<in> set cs. wf_node c) \<Longrightarrow> \<exists>ts st'. mapWhereNodes cs st = Inr (ts, st')"
  using compile_state(2) [of cs st] by blast

lemma predicateSql_total:
  "wf_nodes ns \<Longrightarrow> \<exists>t st'. predicateSql kw ns st = Inr (t, st')"
proof (cases ns)
  case None
  then show ?thesis by (simp add: predicateSql_def)
next
  case (Some l)
  assume "wf_nodes ns"
  with Some have "\<forall>c \<in> set l. wf_node c"
    by (simp add: wf_nodes_def)
  from mapWhereNodes_total [OF this, of st] obtain ts st' where "mapWhereNodes l st = Inr (ts, st')"
    by blast
  with Some show ?thesis
    by (simp add: predicateSql_def compileWhereNodes_def)
qed

lemma compileSelect_shape:
  assumes "wf_nodes (qwhere q)" and "wf_nodes (having q)"
  shows "\<exists>post st'. compileSelect q pre st =
           Inr (pre @ ''SELECT '' @ selectList (columns q) @ '' FROM '' @ table q
                @ joinsSql (joins q) @ post, st')"
proof -
  from predicateSql_total [OF assms(1)] obtain w st1 where
    w: "predicateSql '' WHERE '' (qwhere q) st = Inr (w, st1)"
    by blast
  from predicateSql_total [OF assms(2)] obtain h st2 where
    h: "predicateSql '' HAVING '' (having q) st1 = Inr (h, st2)"
    by blast
  show ?thesis
    by (simp add: compileSelect_def w h)
qed

lemma compile_shape:
  "wf_query a \<Longrightarrow>
     \<exists>pre post st'. compile a st =
        Inr (pre @ ''SELECT '' @ selectList (columns (qfields a)) @ '' FROM '' @ table (qfields a)
             @ joinsSql (joins (qfields a)) @ post, st')
        \<and> (qwith a = None \<or> qwith a = Some [] \<longrightarrow> pre = [])
        \<and> (\<forall>ctes. qwith a = Some ctes \<longrightarrow> ctes \<noteq> [] \<longrightarrow>
              (\<exists>parts. length parts = length ctes
                 \<and> pre = ''WITH '' @ join_str '', '' parts @ '' ''))"
  "wf_ctes cs \<Longrightarrow> \<exists>parts st'. mapCTEs cs st = Inr (parts, st') \<and> length parts = length cs"
proof (induction a st and cs st rule: compile_mapCTEs.induct)
  case (1 q w st)
  from "1.prems" have wq: "wf_nodes (qwhere q)" "wf_nodes (having q)"
    by simp_all
  show ?case
  proof (cases "w = None \<or> w = Some []")
    case True
    from compileSelect_shape [OF wq, of "[]" newCompiler] obtain post st' where
      "compileSelect q [] newCompiler =
         Inr (''SELECT '' @ selectList (columns q) @ '' FROM '' @ table q @ joinsSql (joins q) @ post, st')"
      by auto
    with True show ?thesis
      unfolding compile_unfold by (intro exI [of _ "[]"] exI [of _ post] exI [of _ st']) auto
  next
    case False
    then obtain ctes where w: "w = Some ctes" and ne: "ctes \<noteq> []"
      by auto
    from "1.prems" w have "wf_ctes ctes"
      by simp
    from "1.IH" [OF refl w _ this] ne obtain parts st1 where
      m: "mapCTEs ctes newCompiler = Inr (parts, st1)" and len: "length parts = length ctes"
      by (auto simp: reset_state reset_state_Suc)
    let ?pre = "''WITH '' @ join_str '', '' parts @ '' ''"
    from compileSelect_shape [OF wq, of ?pre st1] obtain post st' where
      "compileSelect q ?pre st1 =
         Inr (?pre @ ''SELECT '' @ selectList (columns q) @ '' FROM '' @ table q @ joinsSql (joins q) @ post, st')"
      by blast
    with w ne m len show ?thesis
      unfolding compile_unfold by (intro exI [of _ ?pre] exI [of _ post] exI [of _ st']) auto
  qed
next
  case (2 st)
  show ?case by simp
next
  case (3 nm sub rest st)
  from "3.prems" have "wf_query sub" "wf_ctes rest"
    by simp_all
  from "3.IH"(1) [OF this(1)] obtain cteSql st1 where c: "compile sub st = Inr (cteSql, st1)"
    by blast
  from "3.IH"(2) [OF c refl \<open>wf_ctes rest\<close>] obtain parts st2 where
    "mapCTEs rest st1 = Inr (parts, st2)" "length parts = length rest"
    by blast
  with c show ?case by simp
qed

text \<open>
  C9. A query model whose projection is absent or the empty list, and whose \<^verbatim>\<open>IN\<close>
  conditions hold sequences: \<^verbatim>\<open>compile\<close> returns a text that reads
  \<^verbatim>\<open>SELECT * FROM <table>\<close> from its first character on when the model has no named
  sub-queries, and right after the \<^verbatim>\<open>WITH\<close> clause, one part for each of them, when it
  has some.
\<close>

theorem empty_projection_is_star:
  assumes "columns q = None \<or> columns q = Some []" and "wf_query (QueryAST q w)"
  shows "\<exists>pre post st'.
           compile (QueryAST q w) st = Inr (pre @ ''SELECT * FROM '' @ table q @ post, st')
           \<and> (w = None \<or> w = Some [] \<longrightarrow> pre = [])
           \<and> (\<forall>ctes. w = Some ctes \<longrightarrow> ctes \<noteq> [] \<longrightarrow>
                 (\<exists>parts. length parts = length ctes
                    \<and> pre = ''WITH '' @ join_str '', '' parts @ '' ''))"
proof -
  from assms(1) have star: "selectList (columns q) = ''*''"
    by (auto simp: selectList_def)
  from compile_shape(1) [OF assms(2), of st] obtain pre post st' where
    c: "compile (QueryAST q w) st =
          Inr (pre @ ''SELECT '' @ selectList (columns q) @ '' FROM '' @ table q
               @ joinsSql (joins q) @ post, st')" and
    p: "w = None \<or> w = Some [] \<longrightarrow> pre = []"
       "\<forall>ctes. w = Some ctes \<longrightarrow> ctes \<noteq> [] \<longrightarrow>
          (\<exists>parts. length parts = length ctes \<and> pre = ''WITH '' @ join_str '', '' parts @ '' '')"
    by (auto simp del: compile.simps)
  from c star have "compile (QueryAST q w) st =
          Inr (pre @ ''SELECT * FROM '' @ table q @ (joinsSql (joins q) @ post), st')"
    by (simp del: compile.simps)
  with p show ?thesis
    by blast
qed

theorem empty_projection_is_star_witness:
  "(columns (initialFields ''users'') = None \<or> columns (initialFields ''users'') = Some [])
   \<and> wf_query (QueryAST (initialFields ''users'') None)
   \<and> (\<exists>pre post st'.
         compile (QueryAST (initialFields ''users'') None) newCompiler =
           Inr (pre @ ''SELECT * FROM '' @ table (initialFields ''users'') @ post, st')
         \<and> pre = [])"
proof -
  have c: "columns (initialFields ''users'') = None \<or> columns (initialFields ''users'') = Some []"
    by (simp add: initialFields_def)
  have w: "wf_query (QueryAST (initialFields ''users'') None)"
    by (simp add: initialFields_def wf_nodes_def)
  from empty_projection_is_star [OF c w, of newCompiler] c w show ?thesis
    by blast
qed

text \<open>
  C4. Compiling a model again gives the same text and the same parameters: \<^verbatim>\<open>compile\<close>
  starts by assigning both fields of the compiler, so its result is the same from every
  compiler state, the one a previous call left included; \<^verbatim>\<open>toSQL\<close> leaves the store of
  query models as it found it, and a second \<^verbatim>\<open>toSQL\<close> returns what the first returned.
\<close>

theorem compile_ignores_earlier_state:
  "compile a st1 = compile a st2
   \<and> snd (qb_toSQL d b \<sigma>) = \<sigma>
   \<and> qb_toSQL d b (snd (qb_toSQL d b \<sigma>)) = qb_toSQL d b \<sigma>"
proof -
  have 1: "compile a st1 = compile a st2"
    by (cases a) (simp only: compile_unfold)
  have 2: "snd (qb_toSQL d b \<sigma>) = \<sigma>"
    by (simp add: qb_toSQL_def split: option.splits sum.splits prod.splits)
  from 1 2 show ?thesis by simp
qed

theorem compile_ignores_earlier_state_witness:
  "compile (QueryAST (initialFields ''users'') None) \<lparr>params = [VNum 7], paramIndex = 2\<rparr> =
     Inr (''SELECT * FROM users'', newCompiler)"
proof -
  have "compile (QueryAST (initialFields ''users'') None) newCompiler =
          Inr (''SELECT * FROM users'', newCompiler)"
    by (simp add: compile_unfold initialFields_def sql_defs del: compile.simps)
  with compile_ignores_earlier_state
         [of "QueryAST (initialFields ''users'') None" "\<lparr>params = [VNum 7], paramIndex = 2\<rparr>" newCompiler]
  show ?thesis by simp
qed

section \<open>Placeholders of a whole statement\<close>

text \<open>
  For a statement without named sub-queries the placeholders of the text \<^verbatim>\<open>compile\<close>
  returns are \<open>1, 2, ...\<close> up to the number of parameters it returns, which are the
  values of the \<^verbatim>\<open>WHERE\<close> predicates followed by those of the \<^verbatim>\<open>HAVING\<close> predicates.
\<close>

lemma spaced_append: "spaced a \<Longrightarrow> spaced b \<Longrightarrow> spaced (a @ b)"
  by (cases a) (auto simp: spaced_def)

lemma spaced_clear: "spaced t \<Longrightarrow> starts_clear t"
  by (cases t) (auto simp: spaced_def starts_clear_def is_digit_def)

lemma join_str_plain:
  "CHR ''$'' \<notin> set sep \<Longrightarrow> (\<forall>x \<in> set xs. CHR ''$'' \<notin> set x) \<Longrightarrow>
   CHR ''$'' \<notin> set (join_str sep xs)"
  by (induction sep xs rule: join_str.induct) auto

lemma join_type_plain: "CHR ''$'' \<notin> set (join_type_text k)"
  by (cases k) simp_all

lemma direction_plain: "CHR ''$'' \<notin> set (direction_text d)"
  by (cases d) simp_all

lemma selectList_plain:
  "(\<forall>c \<in> set (or_empty cols). plain_text c) \<Longrightarrow> CHR ''$'' \<notin> set (selectList cols)"
  by (cases cols) (auto simp: selectList_def or_empty_def plain_text_def join_str_plain)

lemma joinsSql_plain:
  "(\<forall>j \<in> set (or_empty js).
      plain_text (jtable j) \<and> plain_text (left (on j)) \<and> plain_text (right (on j))) \<Longrightarrow>
   CHR ''$'' \<notin> set (joinsSql js)"
  using join_type_plain
  by (cases js) (auto simp: joinsSql_def joinSql_def or_empty_def plain_text_def)

lemma groupBySql_plain:
  "(\<forall>c \<in> set (or_empty g). plain_text c) \<Longrightarrow> CHR ''$'' \<notin> set (groupBySql g)"
  by (cases g) (auto simp: groupBySql_def or_empty_def plain_text_def join_str_plain)

lemma orderBySql_plain:
  "(\<forall>x \<in> set (or_empty ob). plain_text (column x)) \<Longrightarrow> CHR ''$'' \<notin> set (orderBySql ob)"
proof (cases ob)
  case None
  then show ?thesis by (simp add: orderBySql_def)
next
  case (Some l)
  assume "\<forall>x \<in> set (or_empty ob). plain_text (column x)"
  with Some have "\<forall>t \<in> set (map (\<lambda>x. column x @ '' '' @ direction_text (direction x)) l).
                    CHR ''$'' \<notin> set t"
    using direction_plain by (auto simp: or_empty_def plain_text_def)
  then have "CHR ''$'' \<notin> set (join_str '', '' (map (\<lambda>x. column x @ '' '' @ direction_text (direction x)) l))"
    by (intro join_str_plain) simp_all
  with Some show ?thesis
    by (simp add: orderBySql_def)
qed

lemma limitSql_plain:
  "CHR ''$'' \<notin> set kw \<Longrightarrow> (\<forall>i \<in> set_option n. plain_text (printed i)) \<Longrightarrow>
   CHR ''$'' \<notin> set (limitSql kw n)"
  by (cases n) (auto simp: limitSql_def plain_text_def)

lemma groupBySql_spaced: "spaced (groupBySql g)"
  by (cases g) (auto simp: groupBySql_def spaced_def)

lemma orderBySql_spaced: "spaced (orderBySql ob)"
  by (cases ob) (auto simp: orderBySql_def spaced_def)

lemma limitSql_spaced: "kw \<noteq> [] \<Longrightarrow> hd kw = CHR '' '' \<Longrightarrow> spaced (limitSql kw n)"
  by (cases n; cases kw) (auto simp: limitSql_def spaced_def)

lemma predicateSql_text:
  assumes "wf_nodes ns" and "\<forall>n \<in> set (or_empty ns). plain_fields n"
    and "CHR ''$'' \<notin> set kw" and "kw \<noteq> [] \<and> hd kw = CHR '' ''"
  shows "\<exists>t. predicateSql kw ns st = Inr (t, bind_values (bound_values_of ns) st)
             \<and> placeholders t = [paramIndex st ..< paramIndex st + length (bound_values_of ns)]
             \<and> spaced t"
proof (cases "ns = None \<or> ns = Some []")
  case True
  then show ?thesis
    by (auto simp: predicateSql_def bound_values_of_def or_empty_def bind_values_def spaced_def)
next
  case False
  then obtain l where l: "ns = Some l" "l \<noteq> []"
    by auto
  from assms(1) l have wf: "\<forall>c \<in> set l. wf_node c"
    by (simp add: wf_nodes_def)
  from assms(2) l have pl: "\<forall>c \<in> set l. plain_fields c"
    by (simp add: or_empty_def)
  let ?st' = "bind_values (concat (map bound_values l)) st"
  from compile_state(2) [OF wf, of st] obtain ts where
    ts: "mapWhereNodes l st = Inr (ts, ?st')"
    by (auto simp: bind_values_def)
  from compile_text(2) [OF pl ts]
  have ph: "concat (map placeholders ts) = [paramIndex st ..< paramIndex ?st']"
    by simp
  have "placeholders (kw @ join_str '' AND '' ts) = placeholders (join_str '' AND '' ts)"
    using assms(3) by (rule placeholders_skip)
  also have "\<dots> = concat (map placeholders ts)"
    by (simp add: placeholders_join starts_clear_def is_digit_def)
  finally have "placeholders (kw @ join_str '' AND '' ts) = [paramIndex st ..< paramIndex ?st']"
    using ph by simp
  moreover have "spaced (kw @ join_str '' AND '' ts)"
    using assms(4) l(2) ts by (cases kw) (auto simp: spaced_def)
  ultimately show ?thesis
    using l ts
    by (simp add: predicateSql_def compileWhereNodes_def bound_values_of_def or_empty_def
        bind_values_def)
qed


lemma compileSelect_text:
  assumes "wf_nodes (qwhere q)" and "wf_nodes (having q)" and "plain_query q"
    and "paramIndex st = Suc (length (params st))"
  shows "\<exists>sql st'. compileSelect q [] st = Inr (sql, st')
           \<and> params st' = params st @ bound_values_of (qwhere q) @ bound_values_of (having q)
           \<and> paramIndex st' = Suc (length (params st'))
           \<and> placeholders sql = [Suc (length (params st)) ..< Suc (length (params st'))]"
proof -
  let ?A = "''SELECT '' @ selectList (columns q) @ '' FROM '' @ table q @ joinsSql (joins q)"
  let ?G = "groupBySql (groupBy q)"
  let ?R = "orderBySql (orderBy q) @ limitSql '' LIMIT '' (limit q) @ limitSql '' OFFSET '' (offset q)"
  let ?st1 = "bind_values (bound_values_of (qwhere q)) st"
  let ?st2 = "bind_values (bound_values_of (having q)) ?st1"
  from assms(3) have pq:
    "CHR ''$'' \<notin> set (table q)"
    "\<forall>c \<in> set (or_empty (columns q)). plain_text c"
    "\<forall>j \<in> set (or_empty (joins q)).
       plain_text (jtable j) \<and> plain_text (left (on j)) \<and> plain_text (right (on j))"
    "\<forall>c \<in> set (or_empty (groupBy q)). plain_text c"
    "\<forall>x \<in> set (or_empty (orderBy q)). plain_text (column x)"
    "\<forall>n \<in> set (or_empty (qwhere q)). plain_fields n"
    "\<forall>n \<in> set (or_empty (having q)). plain_fields n"
    "\<forall>i \<in> set_option (limit q). plain_text (printed i)"
    "\<forall>i \<in> set_option (offset q). plain_text (printed i)"
    by (simp_all add: plain_query_def plain_text_def)
  from predicateSql_text [OF assms(1) pq(6), of "'' WHERE ''" st] obtain W where
    W: "predicateSql '' WHERE '' (qwhere q) st = Inr (W, ?st1)"
       "placeholders W = [paramIndex st ..< paramIndex st + length (bound_values_of (qwhere q))]"
       "spaced W"
    by auto
  from predicateSql_text [OF assms(2) pq(7), of "'' HAVING ''" ?st1] obtain H where
    H: "predicateSql '' HAVING '' (having q) ?st1 = Inr (H, ?st2)"
       "placeholders H = [paramIndex ?st1 ..< paramIndex ?st1 + length (bound_values_of (having q))]"
       "spaced H"
    by auto
  have A: "CHR ''$'' \<notin> set ?A"
    using pq(1) selectList_plain [OF pq(2)] joinsSql_plain [OF pq(3)] by simp
  have G: "CHR ''$'' \<notin> set ?G"
    by (rule groupBySql_plain [OF pq(4)])
  have R: "CHR ''$'' \<notin> set ?R"
    using orderBySql_plain [OF pq(5)] limitSql_plain [of "'' LIMIT ''" "limit q"]
      limitSql_plain [of "'' OFFSET ''" "offset q"] pq(8,9)
    by simp
  have sR: "spaced ?R"
    by (intro spaced_append orderBySql_spaced limitSql_spaced) simp_all
  have sql: "compileSelect q [] st = Inr (?A @ W @ ?G @ H @ ?R, ?st2)"
    by (simp add: compileSelect_def W(1) H(1))
  have "placeholders (?A @ W @ ?G @ H @ ?R) = placeholders (W @ ?G @ H @ ?R)"
    using A by (rule placeholders_skip)
  also have "\<dots> = placeholders W @ placeholders (?G @ H @ ?R)"
  proof -
    have "spaced (?G @ H @ ?R)"
      by (rule spaced_append [OF groupBySql_spaced spaced_append [OF H(3) sR]])
    then show ?thesis
      by (intro placeholders_append spaced_clear)
  qed
  also have "placeholders (?G @ H @ ?R) = placeholders (H @ ?R)"
    using G by (rule placeholders_skip)
  also have "placeholders (H @ ?R) = placeholders H"
    using R sR by (simp add: placeholders_append spaced_clear placeholders_no_dollar)
  finally have ph: "placeholders (?A @ W @ ?G @ H @ ?R) = placeholders W @ placeholders H" .
  have "placeholders W @ placeholders H =
          [paramIndex st ..< paramIndex st + length (bound_values_of (qwhere q))
                             + length (bound_values_of (having q))]"
    unfolding W(2) H(2)
    using upt_add_eq_append [of "paramIndex st" "paramIndex st + length (bound_values_of (qwhere q))"
        "length (bound_values_of (having q))"]
    by (simp add: bind_values_def add.assoc)
  with ph assms(4) sql show ?thesis
    by (intro exI [of _ "?A @ W @ ?G @ H @ ?R"] exI [of _ ?st2])
       (simp add: bind_values_def add.assoc del: upt_Suc)
qed

lemma statement_placeholders_match_params:
  assumes "w = None \<or> w = Some []" and "wf_nodes (qwhere q)" and "wf_nodes (having q)"
    and "plain_query q"
  shows "\<exists>sql st'. compile (QueryAST q w) st = Inr (sql, st')
           \<and> params st' = bound_values_of (qwhere q) @ bound_values_of (having q)
           \<and> placeholders sql = [1 ..< Suc (length (params st'))]
           \<and> length (placeholders sql) = length (params st')"
proof -
  have "paramIndex newCompiler = Suc (length (params newCompiler))"
    by (simp add: newCompiler_def)
  from compileSelect_text [OF assms(2,3,4) this] obtain sql st' where
    "compileSelect q [] newCompiler = Inr (sql, st')"
    "params st' = bound_values_of (qwhere q) @ bound_values_of (having q)"
    "placeholders sql = [1 ..< Suc (length (params st'))]"
    by (auto simp: newCompiler_def simp del: upt_Suc)
  with assms(1) show ?thesis
    unfolding compile_unfold by (intro exI [of _ sql] exI [of _ st']) (auto simp del: upt_Suc)
qed

section \<open>The query builder\<close>

text \<open>
  A model without named sub-queries is read at any depth from one on, and a model read
  at some depth is read the same at every greater depth.
\<close>

lemma load_without_ctes:
  "owith (\<sigma> ! r) = None \<Longrightarrow> load (Suc d) \<sigma> r = Some (QueryAST (ofields (\<sigma> ! r)) None)"
  by simp

lemma load_deeper:
  "load d \<sigma> r = Some A \<Longrightarrow> load (Suc d) \<sigma> r = Some A"
  "load_ctes d \<sigma> cs = Some ts \<Longrightarrow> load_ctes (Suc d) \<sigma> cs = Some ts"
proof (induction d \<sigma> r and d \<sigma> cs arbitrary: A and ts rule: load_load_ctes.induct)
  case (1 \<sigma> r)
  then show ?case by simp
next
  case (2 n \<sigma> r)
  show ?case
  proof (cases "owith (\<sigma> ! r)")
    case None
    with "2.prems" show ?thesis by simp
  next
    case (Some cs)
    with "2.prems" obtain ts where ts: "load_ctes n \<sigma> cs = Some ts"
      by (auto split: option.splits)
    from "2.IH" [OF Some ts] have "load_ctes (Suc n) \<sigma> cs = Some ts" .
    with "2.prems" Some ts show ?thesis
      by (simp del: load_ctes.simps)
  qed
next
  case (3 n \<sigma>)
  then show ?case by simp
next
  case (4 n \<sigma> c cs)
  from "4.prems" obtain t ts' where
    t: "load n \<sigma> (cte_query c) = Some t" and
    ts': "load_ctes n \<sigma> cs = Some ts'"
    by (auto split: option.splits)
  from "4.IH"(1) [OF t] have t': "load (Suc n) \<sigma> (cte_query c) = Some t" .
  from "4.IH"(2) [OF t ts'] have "load_ctes (Suc n) \<sigma> cs = Some ts'" .
  with "4.prems" t t' ts' show ?case
    by (simp del: load.simps)
qed

lemma rebound_values:
  "rebound_s = \<lparr>schema = [], relations = example_relations, ast = 0\<rparr>"
  "rebound_b = \<lparr>schema = [], relations = example_relations, ast = 1\<rparr>"
  "rebound_before =
     [\<lparr>ofields = initialFields ''users'', owith = None\<rparr>,
      \<lparr>ofields = initialFields ''posts'', owith = Some [\<lparr>cte_name = ''u'', cte_query = 0\<rparr>]\<rparr>]"
  "rebound_after =
     [\<lparr>ofields = (initialFields ''users'')\<lparr>limit := Some (Num ''5'')\<rparr>, owith = None\<rparr>,
      \<lparr>ofields = initialFields ''posts'', owith = Some [\<lparr>cte_name = ''u'', cte_query = 0\<rparr>]\<rparr>]"
  by (simp_all add: rebound_s_def rebound_b_def rebound_before_def rebound_after_def builder_defs)

text \<open>
  C5 as stated fails. \<^verbatim>\<open>with\<close> stores \<^verbatim>\<open>subquery.ast\<close>, the sub-builder's own model:
  after \<^verbatim>\<open>b.with('u', s)\<close> the call \<^verbatim>\<open>s.limit(5)\<close> changes the sub-query that \<^verbatim>\<open>b\<close>
  holds and the text \<^verbatim>\<open>b\<close> compiles to.
\<close>

theorem with_snapshot_counterexample:
  "load 2 rebound_after (ast rebound_b) \<noteq> load 2 rebound_before (ast rebound_b)
   \<and> fst (qb_toSQL 2 rebound_b rebound_before) =
        Some (Inr (''WITH u AS (SELECT * FROM users) SELECT * FROM posts'', []))
   \<and> fst (qb_toSQL 2 rebound_b rebound_after) =
        Some (Inr (''WITH u AS (SELECT * FROM users LIMIT 5) SELECT * FROM posts'', []))"
proof -
  have l1: "load 2 rebound_before (ast rebound_b) =
          Some (QueryAST (initialFields ''posts'')
                  (Some [CTENode ''u'' (QueryAST (initialFields ''users'') None)]))"
    by (simp add: rebound_values numeral_2_eq_2)
  have l2: "load 2 rebound_after (ast rebound_b) =
          Some (QueryAST (initialFields ''posts'')
                  (Some [CTENode ''u'' (QueryAST ((initialFields ''users'')\<lparr>limit := Some (Num ''5'')\<rparr>) None)]))"
    by (simp add: rebound_values numeral_2_eq_2)
  have ne: "load 2 rebound_after (ast rebound_b) \<noteq> load 2 rebound_before (ast rebound_b)"
    unfolding l1 l2 by (simp add: initialFields_def)
  have s1: "fst (qb_toSQL 2 rebound_b rebound_before) =
        Some (Inr (''WITH u AS (SELECT * FROM users) SELECT * FROM posts'', []))"
    by (simp add: qb_toSQL_def l1 compile_unfold initialFields_def del: compile.simps)
       (simp add: compile_unfold sql_defs newCompiler_def del: compile.simps)
  have s2: "fst (qb_toSQL 2 rebound_b rebound_after) =
        Some (Inr (''WITH u AS (SELECT * FROM users LIMIT 5) SELECT * FROM posts'', []))"
    by (simp add: qb_toSQL_def l2 compile_unfold initialFields_def del: compile.simps)
       (simp add: compile_unfold sql_defs newCompiler_def del: compile.simps)
  from ne s1 s2 show ?thesis by simp
qed

lemma modify_other: "r \<noteq> r' \<Longrightarrow> modify r f \<sigma> ! r' = \<sigma> ! r'"
  by (simp add: modify_def)

lemma modify_same: "r < length \<sigma> \<Longrightarrow> modify r f \<sigma> ! r = f (\<sigma> ! r)"
  by (simp add: modify_def)

lemma length_modify: "length (modify r f \<sigma>) = length \<sigma>"
  by (simp add: modify_def)

text \<open>
  C5, amended. \<^verbatim>\<open>with(name, s)\<close> appends to the bindings of \<^verbatim>\<open>b\<close> a reference to the
  model of \<^verbatim>\<open>s\<close>, not a copy. For a sub-builder other than \<^verbatim>\<open>b\<close>, a later \<^verbatim>\<open>limit\<close>,
  \<^verbatim>\<open>select\<close> or \<^verbatim>\<open>where\<close> on \<^verbatim>\<open>s\<close> leaves the model of \<^verbatim>\<open>b\<close>, its bindings included,
  as it was, and changes the model the binding refers to: the named sub-query of \<^verbatim>\<open>b\<close>
  is the model of \<^verbatim>\<open>s\<close> as it is now.
\<close>

theorem with_binds_by_reference:
  assumes "ast s \<noteq> ast b" and "ast b < length \<sigma>" and "ast s < length \<sigma>"
  shows "owith (qb_with b nm s \<sigma> ! ast b) =
           Some (or_empty (owith (\<sigma> ! ast b)) @ [\<lparr>cte_name = nm, cte_query = ast s\<rparr>])
         \<and> qb_limit s n (qb_with b nm s \<sigma>) ! ast b = qb_with b nm s \<sigma> ! ast b
         \<and> qb_limit s n (qb_with b nm s \<sigma>) ! ast s = setFields (\<lambda>q. q\<lparr>limit := Some n\<rparr>) (\<sigma> ! ast s)
         \<and> qb_select s cols (qb_with b nm s \<sigma>) ! ast b = qb_with b nm s \<sigma> ! ast b
         \<and> qb_select s cols (qb_with b nm s \<sigma>) ! ast s = setFields (\<lambda>q. q\<lparr>columns := Some cols\<rparr>) (\<sigma> ! ast s)
         \<and> qb_where s conds (qb_with b nm s \<sigma>) ! ast b = qb_with b nm s \<sigma> ! ast b
         \<and> qb_where s conds (qb_with b nm s \<sigma>) ! ast s =
             setFields (\<lambda>q. q\<lparr>qwhere := Some (or_empty (qwhere q) @ conds)\<rparr>) (\<sigma> ! ast s)"
  using assms
  by (simp add: qb_with_def qb_limit_def qb_select_def qb_where_def modify_other modify_same
      length_modify)

theorem with_binds_by_reference_witness:
  "ast rebound_s \<noteq> ast rebound_b
   \<and> owith (rebound_before ! ast rebound_b) = Some [\<lparr>cte_name = ''u'', cte_query = ast rebound_s\<rparr>]
   \<and> rebound_after ! ast rebound_b = rebound_before ! ast rebound_b
   \<and> rebound_after ! ast rebound_s =
       \<lparr>ofields = (initialFields ''users'')\<lparr>limit := Some (Num ''5'')\<rparr>, owith = None\<rparr>"
proof -
  let ?\<sigma> = "snd (db_query example_db ''posts'' (snd (db_query example_db ''users'' [])))"
  have \<sigma>: "?\<sigma> = [\<lparr>ofields = initialFields ''users'', owith = None\<rparr>,
                 \<lparr>ofields = initialFields ''posts'', owith = None\<rparr>]"
    by (simp add: builder_defs)
  have h: "ast rebound_s \<noteq> ast rebound_b" "ast rebound_b < length ?\<sigma>" "ast rebound_s < length ?\<sigma>"
    by (simp_all add: rebound_values \<sigma>)
  from with_binds_by_reference [OF h, of "''u''" "Num ''5''"] h(1) show ?thesis
    by (simp add: rebound_after_def rebound_before_def [symmetric])
       (simp add: rebound_values \<sigma> setFields_def or_empty_def)
qed

text \<open>
  C6. When no declared relation links the builder's table and the requested one, in
  either direction, \<^verbatim>\<open>join\<close> throws at once, with the message naming the two tables, and
  the store of query models is the one before the call.
\<close>

theorem join_without_relation_raises:
  assumes "\<forall>r \<in> set (relations b).
             \<not> (rel_from r = table (ofields (\<sigma> ! ast b)) \<and> rel_to r = tbl)
             \<and> \<not> (rel_to r = table (ofields (\<sigma> ! ast b)) \<and> rel_from r = tbl)"
  shows "qb_join b tbl kind \<sigma> =
           (Inl (Error (''No relation defined between '' @ table (ofields (\<sigma> ! ast b))
                        @ '' and '' @ tbl)), \<sigma>)"
proof -
  from assms have "find (relation_between (table (ofields (\<sigma> ! ast b))) tbl) (relations b) = None"
    by (simp add: find_None_iff relation_between_def)
  then show ?thesis
    by (simp add: qb_join_def Let_def)
qed

theorem join_without_relation_raises_witness:
  "qb_join rebound_s ''tags'' None rebound_before =
     (Inl (Error ''No relation defined between users and tags''), rebound_before)"
proof -
  have "\<forall>r \<in> set (relations rebound_s).
             \<not> (rel_from r = table (ofields (rebound_before ! ast rebound_s)) \<and> rel_to r = ''tags'')
             \<and> \<not> (rel_to r = table (ofields (rebound_before ! ast rebound_s)) \<and> rel_from r = ''tags'')"
    by (simp add: rebound_values example_relations_def initialFields_def)
  from join_without_relation_raises [OF this, of None] show ?thesis
    by (simp add: rebound_values initialFields_def)
qed

lemma load_fields: "load d \<sigma> r = Some A \<Longrightarrow> qfields A = ofields (\<sigma> ! r)"
  by (cases d) (auto split: option.splits)

text \<open>
  The constructor creates the list of joins, and no method of the builder removes it, so
  \<^verbatim>\<open>this.ast.joins?.push\<close> always finds one.
\<close>

lemma modify_nth:
  "modify r f \<sigma> ! r' = (if r' = r \<and> r < length \<sigma> then f (\<sigma> ! r) else \<sigma> ! r')"
proof (cases "r < length \<sigma>")
  case True
  then show ?thesis by (simp add: modify_def nth_list_update)
next
  case False
  then show ?thesis by (simp add: modify_def list_update_beyond)
qed

lemma constructor_creates_joins:
  "joins (ofields (snd (newQueryBuilder sch rels tbl \<sigma>) ! ast (fst (newQueryBuilder sch rels tbl \<sigma>))))
     = Some []"
  by (simp add: newQueryBuilder_def initialFields_def)

lemma methods_keep_joins:
  assumes "joins (ofields (\<sigma> ! r)) \<noteq> None"
  shows "joins (ofields (qb_select b cols \<sigma> ! r)) \<noteq> None"
    and "joins (ofields (qb_where b conds \<sigma> ! r)) \<noteq> None"
    and "joins (ofields (snd (qb_join b tbl kind \<sigma>) ! r)) \<noteq> None"
    and "joins (ofields (qb_orderBy b col dir \<sigma> ! r)) \<noteq> None"
    and "joins (ofields (qb_groupBy b cols \<sigma> ! r)) \<noteq> None"
    and "joins (ofields (qb_limit b n \<sigma> ! r)) \<noteq> None"
    and "joins (ofields (qb_offset b n \<sigma> ! r)) \<noteq> None"
    and "joins (ofields (qb_with b nm s \<sigma> ! r)) \<noteq> None"
  using assms
  by (auto simp: qb_select_def qb_where_def qb_join_def qb_orderBy_def qb_groupBy_def
      qb_limit_def qb_offset_def qb_with_def modify_nth setFields_def Let_def
      split: option.splits)

text \<open>
  C7. When a relation links the two tables in either direction, \<^verbatim>\<open>join\<close> takes the first
  such relation and appends one clause to the joins of the model (which the constructor
  creates empty), of the kind asked for, \<^verbatim>\<open>INNER\<close> by default, with the on-clause
  \<^verbatim>\<open><current>.<foreignKey> = <joined>.<references>\<close>; nothing else in the store changes.
  Compiling the model then emits the earlier joins, in their order, followed by the new
  one, right after \<^verbatim>\<open>FROM <current>\<close>.
\<close>

theorem join_appends_resolved_clause:
  assumes "\<exists>r \<in> set (relations b).
             (rel_from r = table (ofields (\<sigma> ! ast b)) \<and> rel_to r = tbl)
             \<or> (rel_to r = table (ofields (\<sigma> ! ast b)) \<and> rel_from r = tbl)"
      and "joins (ofields (\<sigma> ! ast b)) = Some js"
      and "ast b < length \<sigma>"
  shows "\<exists>r J \<sigma>'.
           find (relation_between (table (ofields (\<sigma> ! ast b))) tbl) (relations b) = Some r
         \<and> J = \<lparr>jtype = (case kind of None \<Rightarrow> INNER | Some k \<Rightarrow> k), jtable = tbl,
                 on = \<lparr>left = table (ofields (\<sigma> ! ast b)) @ ''.'' @ foreignKey r,
                       right = tbl @ ''.'' @ references r\<rparr>,
                 jalias = None\<rparr>
         \<and> qb_join b tbl kind \<sigma> = (Inr b, \<sigma>')
         \<and> \<sigma>' = \<sigma>[ast b := setFields (\<lambda>q. q\<lparr>joins := Some (js @ [J])\<rparr>) (\<sigma> ! ast b)]
         \<and> (\<forall>d A st. load d \<sigma>' (ast b) = Some A \<longrightarrow> wf_query A \<longrightarrow>
               (\<exists>pre post st'. compile A st =
                  Inr (pre @ ''SELECT '' @ selectList (columns (qfields A)) @ '' FROM ''
                       @ table (ofields (\<sigma> ! ast b)) @ concat (map joinSql js)
                       @ '' '' @ join_type_text (jtype J) @ '' JOIN '' @ tbl @ '' ON ''
                       @ table (ofields (\<sigma> ! ast b)) @ ''.'' @ foreignKey r @ '' = ''
                       @ tbl @ ''.'' @ references r @ post, st')))"
proof -
  let ?cur = "table (ofields (\<sigma> ! ast b))"
  from assms(1) have "\<exists>r \<in> set (relations b). relation_between ?cur tbl r"
    by (simp add: relation_between_def)
  then obtain r where r: "find (relation_between ?cur tbl) (relations b) = Some r"
    by (cases "find (relation_between ?cur tbl) (relations b)") (auto simp: find_None_iff)
  let ?J = "newJoin (case kind of None \<Rightarrow> INNER | Some k \<Rightarrow> k) ?cur tbl r"
  let ?\<sigma>' = "\<sigma>[ast b := setFields (\<lambda>q. q\<lparr>joins := Some (js @ [?J])\<rparr>) (\<sigma> ! ast b)]"
  have j: "qb_join b tbl kind \<sigma> = (Inr b, ?\<sigma>')"
    using r assms(2) by (simp add: qb_join_def Let_def modify_def setFields_def)
  have c: "\<exists>pre post st'. compile A st =
                  Inr (pre @ ''SELECT '' @ selectList (columns (qfields A)) @ '' FROM ''
                       @ ?cur @ concat (map joinSql js)
                       @ '' '' @ join_type_text (jtype ?J) @ '' JOIN '' @ tbl @ '' ON ''
                       @ ?cur @ ''.'' @ foreignKey r @ '' = ''
                       @ tbl @ ''.'' @ references r @ post, st')"
    if l: "load d ?\<sigma>' (ast b) = Some A" and w: "wf_query A" for d A st
  proof -
    from load_fields [OF l] assms(3)
    have f: "qfields A = (ofields (\<sigma> ! ast b))\<lparr>joins := Some (js @ [?J])\<rparr>"
      by (simp add: setFields_def)
    from compile_shape(1) [OF w, of st] obtain pre post st' where
      "compile A st = Inr (pre @ ''SELECT '' @ selectList (columns (qfields A)) @ '' FROM ''
             @ table (qfields A) @ joinsSql (joins (qfields A)) @ post, st')"
      by blast
    then show ?thesis
      by (intro exI [of _ pre] exI [of _ post] exI [of _ st'])
         (simp add: f joinsSql_def joinSql_def newJoin_def)
  qed
  from r j c show ?thesis
    by (intro exI [of _ r] exI [of _ ?J] exI [of _ ?\<sigma>']) (simp add: newJoin_def)
qed

theorem join_appends_resolved_clause_witness:
  "joins (ofields (comments_joined ! ast comments_b)) =
     Some [\<lparr>jtype = INNER, jtable = ''posts'',
            on = \<lparr>left = ''comments.post_id'', right = ''posts.id''\<rparr>, jalias = None\<rparr>]
   \<and> ast comments_b < length comments_joined
   \<and> fst (qb_toSQL 1 comments_b (snd (qb_join comments_b ''users'' (Some LEFT) comments_joined))) =
       Some (Inr (''SELECT * FROM comments INNER JOIN posts ON comments.post_id = posts.id LEFT JOIN users ON comments.user_id = users.id'', []))"
proof -
  let ?J1 = "\<lparr>jtype = INNER, jtable = ''posts'',
              on = \<lparr>left = ''comments.post_id'', right = ''posts.id''\<rparr>, jalias = None\<rparr>"
  let ?J2 = "\<lparr>jtype = LEFT, jtable = ''users'',
              on = \<lparr>left = ''comments.user_id'', right = ''users.id''\<rparr>, jalias = None\<rparr>"
  have b: "comments_b = \<lparr>schema = [], relations = example_relations, ast = 0\<rparr>"
    by (simp add: comments_b_def builder_defs)
  have s: "comments_joined =
             [\<lparr>ofields = (initialFields ''comments'')\<lparr>joins := Some [?J1]\<rparr>, owith = None\<rparr>]"
    by (simp add: comments_joined_def b builder_defs qb_join_def example_relations_def
        relation_between_def newJoin_def Let_def)
  have h1: "\<exists>r \<in> set (relations comments_b).
             (rel_from r = table (ofields (comments_joined ! ast comments_b)) \<and> rel_to r = ''users'')
             \<or> (rel_to r = table (ofields (comments_joined ! ast comments_b)) \<and> rel_from r = ''users'')"
    by (simp add: b s example_relations_def initialFields_def)
  have h2: "joins (ofields (comments_joined ! ast comments_b)) = Some [?J1]"
    by (simp add: b s)
  have h3: "ast comments_b < length comments_joined"
    by (simp add: b s)
  from join_appends_resolved_clause [OF h1 h2 h3, of "Some LEFT"]
  obtain r J \<sigma>' where
    r: "find (relation_between (table (ofields (comments_joined ! ast comments_b))) ''users'')
          (relations comments_b) = Some r" and
    J: "J = \<lparr>jtype = LEFT, jtable = ''users'',
             on = \<lparr>left = table (ofields (comments_joined ! ast comments_b)) @ ''.'' @ foreignKey r,
                   right = ''users'' @ ''.'' @ references r\<rparr>,
             jalias = None\<rparr>" and
    j: "qb_join comments_b ''users'' (Some LEFT) comments_joined = (Inr comments_b, \<sigma>')" and
    \<sigma>': "\<sigma>' = comments_joined[ast comments_b :=
              setFields (\<lambda>q. q\<lparr>joins := Some ([?J1] @ [J])\<rparr>) (comments_joined ! ast comments_b)]"
    by auto
  from r have "r = \<lparr>rel_from = ''comments'', rel_to = ''users'', rel_type = OneToMany,
                    foreignKey = ''user_id'', references = ''id''\<rparr>"
    by (simp add: b s example_relations_def relation_between_def initialFields_def)
  with J have "J = ?J2"
    by (simp add: b s initialFields_def)
  with \<sigma>' have "\<sigma>' = [\<lparr>ofields = (initialFields ''comments'')\<lparr>joins := Some [?J1, ?J2]\<rparr>, owith = None\<rparr>]"
    by (simp add: b s setFields_def)
  then have "fst (qb_toSQL 1 comments_b \<sigma>') =
       Some (Inr (''SELECT * FROM comments INNER JOIN posts ON comments.post_id = posts.id LEFT JOIN users ON comments.user_id = users.id'', []))"
    by (simp add: qb_toSQL_def b compile_unfold initialFields_def del: compile.simps)
       (simp add: sql_defs joinSql_def newCompiler_def)
  with j h2 h3 show ?thesis
    by simp
qed

end
